theory Spec2Isabelle
  imports Complex_Main "HOL-Library.Word" "HOL-Library.Log_Nat"
begin

text \<open>
  The skyline engine of SkyLens: the dominance predicate and the quadratic scan of the
  serial backend (\<open>services/skylineService.ts\<close>), the WebGPU backend with its compute
  shader, its cached device handle and its readback (\<open>services/webgpuService.ts\<close>), and
  the colour mapping \<open>computeColorMapND\<close>. The functions are embedded as they are written:
  loops as folds over their index range or as recursive functions, the module-level
  variables as an explicit state, thrown errors as values, the platform (WebGPU, the clock,
  the arithmetic of doubles) as parameters.
\<close>

section \<open>JavaScript numbers\<close>

text \<open>
  A JavaScript number is an IEEE-754 double: NaN, an infinity, or a finite value, which is
  a rational. Every double is a value of \<open>jsnum\<close>; the zero of \<open>jsnum\<close> stands for both
  signed zeros (they are falsy alike and compare equal).
\<close>

datatype jsnum = NaN | NegInf | Fin rat | PosInf

text \<open>The relational operator \<open>a < b\<close> on numbers; \<open>a > b\<close> is \<open>js_lt b a\<close>.\<close>

fun js_lt :: "jsnum \<Rightarrow> jsnum \<Rightarrow> bool" where
  "js_lt NaN b = False"
| "js_lt a NaN = False"
| "js_lt (Fin a) (Fin b) = (a < b)"
| "js_lt a NegInf = False"
| "js_lt NegInf b = True"
| "js_lt PosInf b = False"
| "js_lt (Fin a) PosInf = True"

definition js_gt :: "jsnum \<Rightarrow> jsnum \<Rightarrow> bool" where
  "js_gt a b = js_lt b a"

text \<open>
  \<open>(v as number) || 0\<close>: a missing property (\<open>undefined\<close>), NaN and zero are falsy and
  give 0; every other number, the infinities included, is kept.
\<close>

fun or_zero :: "jsnum option \<Rightarrow> jsnum" where
  "or_zero None = Fin 0"
| "or_zero (Some NaN) = Fin 0"
| "or_zero (Some (Fin r)) = (if r = 0 then Fin 0 else Fin r)"
| "or_zero (Some NegInf) = NegInf"
| "or_zero (Some PosInf) = PosInf"

text \<open>\<open>Number(v)\<close> of a number-or-missing property: \<open>undefined\<close> becomes NaN.\<close>

fun Number :: "jsnum option \<Rightarrow> jsnum" where
  "Number None = NaN"
| "Number (Some v) = v"

fun isFinite :: "jsnum \<Rightarrow> bool" where
  "isFinite (Fin r) = True"
| "isFinite v = False"

subsection \<open>Storing a number into a Float32Array\<close>

text \<open>
  An element store of a \<open>Float32Array\<close> converts the double to IEEE-754 binary32 with
  round-to-nearest, ties-to-even: 24 significant bits, least normal exponent \<open>-126\<close>
  (below it the spacing stays \<open>2^-149\<close>), overflow to an infinity from \<open>2^128 - 2^103\<close> on.
\<close>

definition pow2 :: "int \<Rightarrow> rat" where
  "pow2 k = (if 0 \<le> k then 2 ^ nat k else 1 / 2 ^ nat (- k))"

text \<open>The exponent of the leading bit of a positive rational: \<open>\<lfloor>log\<^sub>2 a\<rfloor>\<close>.\<close>

definition ilog2 :: "rat \<Rightarrow> int" where
  "ilog2 a = (let (p, q) = quotient_of a; k = bitlen p - bitlen q
              in if pow2 k \<le> a then k else k - 1)"

definition round_ties_even :: "rat \<Rightarrow> int" where
  "round_ties_even y =
     (let f = \<lfloor>y\<rfloor>; r = y - of_int f
      in if r < 1 / 2 then f
         else if 1 / 2 < r then f + 1
         else if even f then f else f + 1)"

definition fround :: "jsnum \<Rightarrow> jsnum" where
  "fround v =
     (case v of
        Fin x \<Rightarrow>
          if x = 0 then Fin 0
          else
            let a = \<bar>x\<bar>;
                e = max (ilog2 a) (- 126);
                u = pow2 (e - 23);
                r = of_int (round_ties_even (a / u)) * u
            in if pow2 128 \<le> r then (if x < 0 then NegInf else PosInf)
               else Fin (if x < 0 then - r else r)
      | _ \<Rightarrow> v)"

section \<open>Data model\<close>

text \<open>
  \<open>DataPoint\<close>: \<open>id\<close>, \<open>name\<close> and the index signature. The attribute columns are read
  \<open>as number\<close>; \<open>props p k\<close> is the number stored under key \<open>k\<close>, \<open>None\<close> when the
  property is missing.
\<close>

record DataPoint =
  id_of :: string
  name :: string
  props :: "string \<Rightarrow> jsnum option"

record AttributeConfig =
  key :: string
  label :: string
  min_attr :: jsnum
  max_attr :: jsnum
  weight :: jsnum
  color :: string
  angle :: jsnum

datatype ComputeMode = CPU | WebGPU

text \<open>\<open>SkylineResult\<close>; its field \<open>method\<close> is \<open>method_tag\<close> here.\<close>

record SkylineResult =
  skylineIds :: "string set"
  dominanceScores :: "string \<rightharpoonup> nat"
  dominatedBy :: "string \<rightharpoonup> nat"
  computationTime :: jsnum
  method_tag :: ComputeMode

section \<open>Serial backend\<close>

text \<open>
  \<open>dominates(a, b, attributes)\<close>: the \<open>for ... of\<close> loop with its early \<open>return false\<close>;
  the last argument is \<open>betterInAtLeastOne\<close>.
\<close>

fun dominates_loop ::
  "DataPoint \<Rightarrow> DataPoint \<Rightarrow> AttributeConfig list \<Rightarrow> bool \<Rightarrow> bool" where
  "dominates_loop a b [] betterInAtLeastOne = betterInAtLeastOne"
| "dominates_loop a b (attr # rest) betterInAtLeastOne =
     (let valA = or_zero (props a (key attr));
          valB = or_zero (props b (key attr))
      in if js_lt valA valB then False
         else dominates_loop a b rest (if js_gt valA valB then True else betterInAtLeastOne))"

definition dominates :: "DataPoint \<Rightarrow> DataPoint \<Rightarrow> AttributeConfig list \<Rightarrow> bool" where
  "dominates a b attributes = dominates_loop a b attributes False"

text \<open>
  The counter tables are plain objects \<open>{}\<close>, modelled by their own properties.
  \<open>m[k] = v\<close> creates or overwrites the own property \<open>k\<close>, except for the key
  \<open>__proto__\<close>: there the store goes to the inherited prototype setter, which ignores a
  number, and the object gets no property.
\<close>

definition assign :: "(string \<rightharpoonup> nat) \<Rightarrow> string \<Rightarrow> nat \<Rightarrow> (string \<rightharpoonup> nat)" where
  "assign m k v = (if k = ''__proto__'' then m else m(k \<mapsto> v))"

text \<open>
  \<open>m[k]++\<close> on a counter object. Every key the scan increments was set by the initialising
  \<open>forEach\<close>, so the key is present unless it is \<open>__proto__\<close>; for that key the read gives
  the prototype object, the increment NaN, and the store is ignored again: a missing key
  is left missing.
\<close>

definition incr :: "(string \<rightharpoonup> nat) \<Rightarrow> string \<Rightarrow> (string \<rightharpoonup> nat)" where
  "incr m k = m(k := map_option Suc (m k))"

type_synonym counters = "(string \<rightharpoonup> nat) \<times> (string \<rightharpoonup> nat)"

definition init_counters :: "DataPoint list \<Rightarrow> counters" where
  "init_counters data =
     fold (\<lambda>p (ds, db). (assign ds (id_of p) 0, assign db (id_of p) 0)) data (Map.empty, Map.empty)"

text \<open>The body of the inner loop over \<open>j\<close>; the state is \<open>(isADominated, dominanceScores, dominatedBy)\<close>.\<close>

definition inner_step ::
  "DataPoint list \<Rightarrow> AttributeConfig list \<Rightarrow> nat \<Rightarrow> nat \<Rightarrow> bool \<times> counters \<Rightarrow> bool \<times> counters" where
  "inner_step data attributes i j st =
     (if i = j then st
      else
        let a = data ! i; b = data ! j;
            (isADominated, ds, db) = st;
            (isADominated, db) =
               (if dominates b a attributes then (True, incr db (id_of a)) else (isADominated, db));
            ds = (if dominates a b attributes then incr ds (id_of a) else ds)
        in (isADominated, ds, db))"

text \<open>The body of the outer loop over \<open>i\<close>; the state is \<open>(skylineIds, dominanceScores, dominatedBy)\<close>.\<close>

definition outer_step ::
  "DataPoint list \<Rightarrow> AttributeConfig list \<Rightarrow> nat \<Rightarrow> string set \<times> counters \<Rightarrow> string set \<times> counters" where
  "outer_step data attributes i st =
     (let (sky, cs) = st;
          (isADominated, cs') = fold (inner_step data attributes i) [0..<length data] (False, cs)
      in (if \<not> isADominated then insert (id_of (data ! i)) sky else sky, cs'))"

text \<open>
  \<open>computeSkylineCPU\<close>. The clock is outside the program: \<open>elapsed\<close> is the value of
  \<open>end - start\<close> of the two \<open>performance.now()\<close> readings.
\<close>

definition computeSkylineCPU ::
  "jsnum \<Rightarrow> DataPoint list \<Rightarrow> AttributeConfig list \<Rightarrow> SkylineResult" where
  "computeSkylineCPU elapsed data attributes =
     (if length data = 0
      then \<lparr>skylineIds = {}, dominanceScores = Map.empty, dominatedBy = Map.empty,
            computationTime = Fin 0, method_tag = CPU\<rparr>
      else
        let (sky, ds, db) =
              fold (outer_step data attributes) [0..<length data] ({}, init_counters data)
        in \<lparr>skylineIds = sky, dominanceScores = ds, dominatedBy = db,
             computationTime = elapsed, method_tag = CPU\<rparr>)"

section \<open>Parallel backend: the compute shader\<close>

type_synonym u32 = "32 word"

text \<open>
  \<open>data[k]\<close> of the storage buffer \<open>array<f32>\<close>, whose content is the uploaded
  \<open>Float32Array\<close> of \<open>count * dimensions\<close> values; a read past them is given the value
  zero. The index arithmetic is that of \<open>u32\<close>: it wraps at \<open>2^32\<close>.
\<close>

definition rd :: "jsnum list \<Rightarrow> u32 \<Rightarrow> jsnum" where
  "rd buf k = (if unat k < length buf then buf ! unat k else Fin 0)"

record flags =
  i_be_j :: bool
  i_s_j :: bool
  j_be_i :: bool
  j_s_i :: bool

text \<open>The loop over \<open>d\<close>, with its \<open>break\<close>. The comparisons of \<open>f32\<close> values are IEEE comparisons.\<close>

function dim_loop :: "jsnum list \<Rightarrow> u32 \<Rightarrow> u32 \<Rightarrow> u32 \<Rightarrow> u32 \<Rightarrow> flags \<Rightarrow> flags" where
  "dim_loop buf dimensions i_off j_off d f =
     (if d < dimensions then
        let v_i = rd buf (i_off + d);
            v_j = rd buf (j_off + d);
            f = (if js_lt v_i v_j then f\<lparr>i_be_j := False, j_s_i := True\<rparr> else f);
            f = (if js_gt v_i v_j then f\<lparr>j_be_i := False, i_s_j := True\<rparr> else f)
        in if \<not> i_be_j f \<and> \<not> j_be_i f then f
           else dim_loop buf dimensions i_off j_off (d + 1) f
      else f)"
  by pat_completeness auto
termination
  by (relation "measure (\<lambda>(buf, dimensions, i_off, j_off, d, f). unat dimensions - unat d)")
     (simp, unat_arith)

declare dim_loop.simps [simp del]

text \<open>The body of the loop over \<open>j\<close>; the state is \<open>(d_by, d_score)\<close>.\<close>

definition j_step :: "jsnum list \<Rightarrow> u32 \<Rightarrow> u32 \<Rightarrow> u32 \<Rightarrow> u32 \<times> u32 \<Rightarrow> u32 \<times> u32" where
  "j_step buf dimensions i j acc =
     (if i = j then acc
      else
        let (d_by, d_score) = acc;
            i_off = i * dimensions;
            j_off = j * dimensions;
            f = dim_loop buf dimensions i_off j_off 0
                  \<lparr>i_be_j = True, i_s_j = False, j_be_i = True, j_s_i = False\<rparr>;
            d_score = (if i_be_j f \<and> i_s_j f then d_score + 1 else d_score);
            d_by = (if j_be_i f \<and> j_s_i f then d_by + 1 else d_by)
        in (d_by, d_score))"

function j_loop :: "jsnum list \<Rightarrow> u32 \<Rightarrow> u32 \<Rightarrow> u32 \<Rightarrow> u32 \<Rightarrow> u32 \<times> u32 \<Rightarrow> u32 \<times> u32" where
  "j_loop buf dimensions count i j acc =
     (if j < count then j_loop buf dimensions count i (j + 1) (j_step buf dimensions i j acc)
      else acc)"
  by pat_completeness auto
termination
  by (relation "measure (\<lambda>(buf, dimensions, count, i, j, acc). unat count - unat j)")
     (simp, unat_arith)

declare j_loop.simps [simp del]

text \<open>
  The entry point for one invocation: \<open>None\<close> when \<open>i >= params.count\<close> (the invocation
  returns and writes nothing), else the pair \<open>(dominatedBy, dominatingScore)\<close> it stores
  in \<open>results[i]\<close>.
\<close>

definition shader_main :: "jsnum list \<Rightarrow> u32 \<Rightarrow> u32 \<Rightarrow> u32 \<Rightarrow> (u32 \<times> u32) option" where
  "shader_main buf dimensions count global_id =
     (let i = global_id
      in if count \<le> i then None
         else Some (j_loop buf dimensions count i 0 (0, 0)))"

text \<open>
  The invocation with global id \<open>g\<close>, run on the output buffer \<open>results\<close> (indexed by
  record): it stores its pair at \<open>results[i]\<close>, or returns early.
\<close>

definition invoke ::
  "(u32 \<Rightarrow> (u32 \<times> u32) option) \<Rightarrow> nat \<Rightarrow> (nat \<Rightarrow> u32 \<times> u32) \<Rightarrow> (nat \<Rightarrow> u32 \<times> u32)" where
  "invoke invocation g results =
     (let global_id = (of_nat g :: u32)
      in case invocation global_id of
           None \<Rightarrow> results
         | Some r \<Rightarrow> results(unat global_id := r))"

text \<open>
  \<open>dispatchWorkgroups(groups)\<close> with workgroup size 64: one invocation for every global
  id below \<open>groups * 64\<close>. The invocations only read the shared input and write distinct
  elements of the output, so the order in which they run does not matter.
\<close>

definition dispatchWorkgroups ::
  "nat \<Rightarrow> (u32 \<Rightarrow> (u32 \<times> u32) option) \<Rightarrow> (nat \<Rightarrow> u32 \<times> u32) \<Rightarrow> (nat \<Rightarrow> u32 \<times> u32)" where
  "dispatchWorkgroups groups invocation results =
     fold (invoke invocation) [0..<groups * 64] results"

section \<open>Parallel backend: the host\<close>

datatype gpu_error =
    EnumsUnavailable
  | WebGPUUnavailable
  | AdapterRequestFailed
  | DeviceRequestRejected
  | MapAsyncRejected nat

datatype gpu_op = MapAsync | Unmap | GetMappedRange

text \<open>\<open>GPUState\<close>: the device handle; queue, pipeline and bind group layout belong to it.\<close>

record GPUState =
  device :: nat

text \<open>
  What the platform answers during one call: whether \<open>GPUBufferUsage\<close> and \<open>GPUMapMode\<close>
  exist, whether \<open>navigator.gpu\<close> exists, whether \<open>requestAdapter\<close> gives an adapter, the
  device \<open>requestDevice\<close> resolves to (\<open>None\<close>: it rejects), whether the \<open>n\<close>-th \<open>mapAsync\<close>
  of the call resolves, and what the output buffer holds before the dispatch.
\<close>

record gpu_env =
  enums :: bool
  navGpu :: bool
  requestAdapter :: bool
  requestDevice :: "nat option"
  mapAsync_ok :: "nat \<Rightarrow> bool"
  resultBuf_prior :: "nat \<Rightarrow> u32 \<times> u32"

text \<open>
  The module-level variables. A promise is modelled by what it settles to: \<open>Inl\<close> a
  rejection, \<open>Inr\<close> the value. Each buffer variable with its byte count is the capacity
  of the live buffer, \<open>None\<close> for \<open>null\<close>.
\<close>

record module_state =
  gpuStatePromise :: "(gpu_error + GPUState) option"
  dataBuf :: "nat option"
  resultBuf :: "nat option"
  uniformBuf :: "nat option"
  readbackBuf :: "nat option"

definition initial_state :: module_state where
  "initial_state = \<lparr>gpuStatePromise = None, dataBuf = None, resultBuf = None,
                     uniformBuf = None, readbackBuf = None\<rparr>"

text \<open>The body of the async function whose promise \<open>getGPUState\<close> stores.\<close>

definition acquire :: "gpu_env \<Rightarrow> gpu_error + GPUState" where
  "acquire env =
     (if \<not> navGpu env then Inl WebGPUUnavailable
      else if \<not> requestAdapter env then Inl AdapterRequestFailed
      else case requestDevice env of
             None \<Rightarrow> Inl DeviceRequestRejected
           | Some dev \<Rightarrow> Inr \<lparr>device = dev\<rparr>)"

definition getGPUState :: "gpu_env \<Rightarrow> module_state \<Rightarrow> (gpu_error + GPUState) \<times> module_state" where
  "getGPUState env st =
     (case gpuStatePromise st of
        Some p \<Rightarrow> (p, st)
      | None \<Rightarrow> (let p = acquire env in (p, st\<lparr>gpuStatePromise := Some p\<rparr>)))"

text \<open>
  \<open>ensureBuffer\<close>: the live buffer is kept when it exists and is large enough; otherwise it
  is destroyed and a buffer of the needed size takes its place.
\<close>

definition ensureBuffer :: "nat option \<Rightarrow> nat \<Rightarrow> nat option" where
  "ensureBuffer buf neededBytes =
     (case buf of
        Some currentBytes \<Rightarrow> if neededBytes \<le> currentBytes then Some currentBytes else Some neededBytes
      | None \<Rightarrow> Some neededBytes)"

text \<open>
  One element of the upload: \<open>v = Number(row[key])\<close>, then \<open>Number.isFinite(v) ? v : 0\<close>
  stored into the \<open>Float32Array\<close>.
\<close>

definition f32_of :: "jsnum option \<Rightarrow> jsnum" where
  "f32_of x = (let v = Number x in fround (if isFinite v then v else Fin 0))"

text \<open>
  The \<open>Float32Array\<close> the host uploads, row-major: the value of record \<open>i\<close> in column \<open>d\<close>
  is element \<open>i * dims + d\<close>.
\<close>

definition flatten :: "DataPoint list \<Rightarrow> AttributeConfig list \<Rightarrow> jsnum list" where
  "flatten data attrs =
     concat (map (\<lambda>row. map (\<lambda>attr. f32_of (props row (key attr))) attrs) data)"

text \<open>
  The \<open>try\<close>/\<open>catch\<close> around \<open>mapAsync\<close>: the outcome and the operations issued on the
  readback buffer; \<open>ok n\<close> tells whether the \<open>n\<close>-th \<open>mapAsync\<close> of the call (counted from 0)
  resolves. The error thrown is that of the second attempt, \<open>e2\<close>.
\<close>

definition map_readback :: "(nat \<Rightarrow> bool) \<Rightarrow> (gpu_error + unit) \<times> gpu_op list" where
  "map_readback ok =
     (if ok 0 then (Inr (), [MapAsync])
      else if ok 1 then (Inr (), [MapAsync, Unmap, MapAsync])
      else (Inl (MapAsyncRejected 1), [MapAsync, Unmap, MapAsync]))"

text \<open>The output buffer once the submitted work is done.\<close>

definition kernel_results :: "gpu_env \<Rightarrow> DataPoint list \<Rightarrow> AttributeConfig list \<Rightarrow> nat \<Rightarrow> u32 \<times> u32" where
  "kernel_results env data attrs =
     (let count = length data;
          dims = length attrs;
          flat = flatten data attrs
      in dispatchWorkgroups ((count + 63) div 64)
           (shader_main flat (of_nat dims) (of_nat count)) (resultBuf_prior env))"

text \<open>The body of the decoding loop; the state is \<open>(skylineIds, dominanceScores, dominatedBy)\<close>.\<close>

definition decode_step ::
  "DataPoint list \<Rightarrow> (nat \<Rightarrow> u32 \<times> u32) \<Rightarrow> nat \<Rightarrow> string set \<times> counters \<Rightarrow> string set \<times> counters" where
  "decode_step data res i st =
     (let (sky, ds, db) = st;
          ident = id_of (data ! i);
          dBy = unat (fst (res i));
          dScore = unat (snd (res i));
          db = assign db ident dBy;
          ds = assign ds ident dScore
      in (if dBy = 0 then insert ident sky else sky, ds, db))"

text \<open>
  \<open>computeSkylineWebGPU\<close>: the outcome (\<open>Inl\<close> the error thrown), the module state after
  the call and the operations issued on the readback buffer. \<open>elapsed\<close> is
  \<open>performance.now() - start\<close>.
\<close>

definition computeSkylineWebGPU ::
  "gpu_env \<Rightarrow> module_state \<Rightarrow> jsnum \<Rightarrow> DataPoint list \<Rightarrow> AttributeConfig list
     \<Rightarrow> (gpu_error + SkylineResult) \<times> module_state \<times> gpu_op list" where
  "computeSkylineWebGPU env st elapsed data attrs =
     (if length data = 0 \<or> length attrs = 0
      then (Inr \<lparr>skylineIds = {}, dominanceScores = Map.empty, dominatedBy = Map.empty,
                 computationTime = elapsed, method_tag = WebGPU\<rparr>, st, [])
      else if \<not> enums env then (Inl EnumsUnavailable, st, [])
      else
        case getGPUState env st of
          (Inl e, st) \<Rightarrow> (Inl e, st, [])
        | (Inr gpu, st) \<Rightarrow>
            let count = length data;
                dims = length attrs;
                flat = flatten data attrs;
                st = st\<lparr>dataBuf := ensureBuffer (dataBuf st) (4 * length flat),
                        resultBuf := ensureBuffer (resultBuf st) (count * 8),
                        uniformBuf := ensureBuffer (uniformBuf st) 8,
                        readbackBuf := ensureBuffer (readbackBuf st) (count * 8)\<rparr>;
                results = kernel_results env data attrs
            in case map_readback (mapAsync_ok env) of
                 (Inl e, ops) \<Rightarrow> (Inl e, st, ops)
               | (Inr u, ops) \<Rightarrow>
                   let (sky, ds, db) =
                         fold (decode_step data results) [0..<count] ({}, Map.empty, Map.empty)
                   in (Inr \<lparr>skylineIds = sky, dominanceScores = ds, dominatedBy = db,
                              computationTime = elapsed, method_tag = WebGPU\<rparr>,
                       st, ops @ [GetMappedRange, Unmap]))"

section \<open>Colour mapping\<close>

text \<open>
  The arithmetic of doubles rounds, and \<open>Math.cos\<close>, \<open>Math.sin\<close>, \<open>Math.atan2\<close> and
  \<open>Math.sqrt\<close> are the platform's: they are parameters of the model, as is the colour
  space conversion of d3-color, which gives the three channels of \<open>d3.hcl(h, c, l).rgb()\<close>
  rounded and clamped to \<open>0..255\<close>.
\<close>

record js_arith =
  add :: "jsnum \<Rightarrow> jsnum \<Rightarrow> jsnum"
  sub :: "jsnum \<Rightarrow> jsnum \<Rightarrow> jsnum"
  mul :: "jsnum \<Rightarrow> jsnum \<Rightarrow> jsnum"
  divide_js :: "jsnum \<Rightarrow> jsnum \<Rightarrow> jsnum"
  remainder :: "jsnum \<Rightarrow> jsnum \<Rightarrow> jsnum"
  Math_cos :: "jsnum \<Rightarrow> jsnum"
  Math_sin :: "jsnum \<Rightarrow> jsnum"
  Math_sqrt :: "jsnum \<Rightarrow> jsnum"
  Math_atan2 :: "jsnum \<Rightarrow> jsnum \<Rightarrow> jsnum"
  hcl_channels :: "jsnum \<Rightarrow> jsnum \<Rightarrow> jsnum \<Rightarrow> nat \<times> nat \<times> nat"

text \<open>\<open>Math.max\<close> of two numbers: NaN if either is NaN, else the larger; it does not round.\<close>

definition Math_max :: "jsnum \<Rightarrow> jsnum \<Rightarrow> jsnum" where
  "Math_max a b = (if a = NaN \<or> b = NaN then NaN else if js_lt a b then b else a)"

text \<open>The doubles that the literals \<open>0.01\<close> and \<open>Math.PI\<close> denote.\<close>

definition lit_0_01 :: jsnum where
  "lit_0_01 = Fin (5764607523034235 / 2 ^ 59)"

definition Math_PI :: jsnum where
  "Math_PI = Fin (884279719003555 / 2 ^ 48)"

text \<open>The decimal digits of an integer channel, as the string concatenation prints it.\<close>

function decimal :: "nat \<Rightarrow> string" where
  "decimal n = (if n < 10 then [''0123456789'' ! n]
                else decimal (n div 10) @ [''0123456789'' ! (n mod 10)])"
  by pat_completeness auto
termination
  by (relation "measure id") auto

text \<open>
  \<open>d3.hcl(h, c, l).toString()\<close>: d3-color prints a colour through its RGB form, an opaque
  one as \<open>rgb(r, g, b)\<close> with integer channels.
\<close>

definition hcl_toString :: "js_arith \<Rightarrow> jsnum \<Rightarrow> jsnum \<Rightarrow> jsnum \<Rightarrow> string" where
  "hcl_toString m h c l =
     (let (r, g, b) = hcl_channels m h c l
      in ''rgb('' @ decimal r @ '', '' @ decimal g @ '', '' @ decimal b @ '')'')"

text \<open>The \<open>forEach\<close> of \<open>computeColorMapND\<close>; the state is \<open>(x, y, totalNorm)\<close>.\<close>

definition accumulate_step ::
  "js_arith \<Rightarrow> DataPoint \<Rightarrow> AttributeConfig \<Rightarrow> jsnum \<times> jsnum \<times> jsnum \<Rightarrow> jsnum \<times> jsnum \<times> jsnum" where
  "accumulate_step m point attr st =
     (let (x, y, totalNorm) = st;
          val = or_zero (props point (key attr));
          norm = divide_js m (sub m val (min_attr attr))
                   (Math_max (Fin 1) (sub m (max_attr attr) (min_attr attr)))
      in (add m x (mul m (Math_cos m (angle attr)) norm),
          add m y (mul m (Math_sin m (angle attr)) norm),
          add m totalNorm norm))"

definition accumulate :: "js_arith \<Rightarrow> DataPoint \<Rightarrow> AttributeConfig list \<Rightarrow> jsnum \<times> jsnum \<times> jsnum" where
  "accumulate m point attributes = fold (accumulate_step m point) attributes (Fin 0, Fin 0, Fin 0)"

definition computeColorMapND :: "js_arith \<Rightarrow> DataPoint \<Rightarrow> AttributeConfig list \<Rightarrow> string" where
  "computeColorMapND m point attributes =
     (if length attributes = 0 then ''#475569''
      else
        let (x, y, totalNorm) = accumulate m point attributes
        in if js_lt totalNorm lit_0_01 then hcl_toString m (Fin 0) (Fin 0) (Fin 30)
           else
             let angle = Math_atan2 m y x;
                 hue = remainder m (add m (divide_js m (mul m angle (Fin 180)) Math_PI) (Fin 360))
                         (Fin 360);
                 strength = divide_js m (Math_sqrt m (add m (mul m x x) (mul m y y)))
                              (Math_sqrt m (Fin (of_nat (length attributes))));
                 chroma = add m (Fin 30) (mul m strength (Fin 60));
                 luminance = Fin 60
             in hcl_toString m hue chroma luminance)"

section \<open>Sample inputs and platforms\<close>

text \<open>The records and attributes of the worked example, and the result expected for them.\<close>

definition example_data :: "DataPoint list" where
  "example_data =
     [\<lparr>id_of = ''A'', name = ''A'', props = [''pace'' \<mapsto> Fin 90, ''shoot'' \<mapsto> Fin 80]\<rparr>,
      \<lparr>id_of = ''B'', name = ''B'', props = [''pace'' \<mapsto> Fin 80, ''shoot'' \<mapsto> Fin 90]\<rparr>,
      \<lparr>id_of = ''C'', name = ''C'', props = [''pace'' \<mapsto> Fin 70, ''shoot'' \<mapsto> Fin 70]\<rparr>]"

definition example_attrs :: "AttributeConfig list" where
  "example_attrs =
     [\<lparr>key = ''pace'', label = ''Pace'', min_attr = Fin 0, max_attr = Fin 100, weight = Fin 1,
       color = ''#ef4444'', angle = Fin 0\<rparr>,
      \<lparr>key = ''shoot'', label = ''Shoot'', min_attr = Fin 0, max_attr = Fin 100, weight = Fin 1,
       color = ''#f97316'', angle = Fin 1\<rparr>]"

definition example_result :: "ComputeMode \<Rightarrow> jsnum \<Rightarrow> SkylineResult" where
  "example_result tag t =
     \<lparr>skylineIds = {''A'', ''B''},
      dominanceScores = [''A'' \<mapsto> 1, ''B'' \<mapsto> 1, ''C'' \<mapsto> 0],
      dominatedBy = [''A'' \<mapsto> 0, ''B'' \<mapsto> 0, ''C'' \<mapsto> 2],
      computationTime = t, method_tag = tag\<rparr>"

text \<open>A second record with the values of \<open>A\<close>.\<close>

definition twin_A :: DataPoint where
  "twin_A = \<lparr>id_of = ''A2'', name = ''A again'', props = [''pace'' \<mapsto> Fin 90, ''shoot'' \<mapsto> Fin 80]\<rparr>"

text \<open>
  Two records whose values differ as doubles and coincide as float32:
  \<open>16777217 = 2^24 + 1\<close> has 25 significant bits.
\<close>

definition close_data :: "DataPoint list" where
  "close_data =
     [\<lparr>id_of = ''A'', name = ''A'', props = [''x'' \<mapsto> Fin 16777217]\<rparr>,
      \<lparr>id_of = ''B'', name = ''B'', props = [''x'' \<mapsto> Fin 16777216]\<rparr>]"

definition close_attrs :: "AttributeConfig list" where
  "close_attrs =
     [\<lparr>key = ''x'', label = ''X'', min_attr = Fin 16777216, max_attr = Fin 16777217, weight = Fin 1,
       color = ''#ef4444'', angle = Fin 0\<rparr>]"

text \<open>Two records that share the id \<open>A\<close>, the second better than the first in \<open>x\<close>.\<close>

definition same_id_data :: "DataPoint list" where
  "same_id_data =
     [\<lparr>id_of = ''A'', name = ''A low'', props = [''x'' \<mapsto> Fin 1]\<rparr>,
      \<lparr>id_of = ''A'', name = ''A high'', props = [''x'' \<mapsto> Fin 2]\<rparr>]"

text \<open>A record whose id is the string \<open>__proto__\<close>.\<close>

definition proto_point :: DataPoint where
  "proto_point = \<lparr>id_of = ''__proto__'', name = ''P'', props = [''pace'' \<mapsto> Fin 40]\<rparr>"

text \<open>A single record whose value is the declared minimum of its only attribute.\<close>

definition low_point :: DataPoint where
  "low_point = \<lparr>id_of = ''Z'', name = ''Z'', props = [''pace'' \<mapsto> Fin 40]\<rparr>"

definition pace_attr :: "AttributeConfig list" where
  "pace_attr =
     [\<lparr>key = ''pace'', label = ''Pace'', min_attr = Fin 40, max_attr = Fin 99, weight = Fin 1,
       color = ''#ef4444'', angle = Fin 0\<rparr>]"

text \<open>
  Platforms: one on which every step succeeds, with a zeroed output buffer, and the
  module state after the worked example has run on it; one without an adapter; one whose
  first \<open>mapAsync\<close> fails; one whose first two fail.
\<close>

definition working_env :: gpu_env where
  "working_env = \<lparr>enums = True, navGpu = True, requestAdapter = True, requestDevice = Some 0,
                   mapAsync_ok = (\<lambda>n. True), resultBuf_prior = (\<lambda>i. (0, 0))\<rparr>"

definition example_state :: module_state where
  "example_state = \<lparr>gpuStatePromise = Some (Inr \<lparr>device = 0\<rparr>), dataBuf = Some 24,
                     resultBuf = Some 24, uniformBuf = Some 8, readbackBuf = Some 24\<rparr>"

definition no_adapter_env :: gpu_env where
  "no_adapter_env = working_env\<lparr>requestAdapter := False\<rparr>"

definition retry_env :: gpu_env where
  "retry_env = working_env\<lparr>mapAsync_ok := (\<lambda>n. n = 1)\<rparr>"

definition unmappable_env :: gpu_env where
  "unmappable_env = working_env\<lparr>mapAsync_ok := (\<lambda>n. 2 \<le> n)\<rparr>"

text \<open>
  An instance of the arithmetic parameters for running the colour mapping: the four
  operations without rounding on finite values, division by zero and everything not
  needed below left as NaN, cosine, sine and square root given only where they are exact,
  and a colour conversion that answers the grey of \<open>d3.hcl(0, 0, 30)\<close>.
\<close>

definition lift2 :: "(rat \<Rightarrow> rat \<Rightarrow> rat) \<Rightarrow> jsnum \<Rightarrow> jsnum \<Rightarrow> jsnum" where
  "lift2 f a b = (case (a, b) of (Fin x, Fin y) \<Rightarrow> Fin (f x y) | _ \<Rightarrow> NaN)"

definition sample_arith :: js_arith where
  "sample_arith =
     \<lparr>add = lift2 (+), sub = lift2 (-), mul = lift2 (*),
      divide_js = (\<lambda>a b. if b = Fin 0 then NaN else lift2 (/) a b),
      remainder = (\<lambda>a b. NaN),
      Math_cos = (\<lambda>a. if a = Fin 0 then Fin 1 else NaN),
      Math_sin = (\<lambda>a. if a = Fin 0 then Fin 0 else NaN),
      Math_sqrt = (\<lambda>a. if a = Fin 0 then Fin 0 else if a = Fin 1 then Fin 1 else NaN),
      Math_atan2 = (\<lambda>y x. NaN),
      hcl_channels = (\<lambda>h c l. (71, 71, 71))\<rparr>"

section \<open>Auxiliary notions\<close>

text \<open>
  The counts the serial scan computes for record \<open>i\<close>: how many other records dominate
  it, and how many it dominates.
\<close>

definition dby :: "DataPoint list \<Rightarrow> AttributeConfig list \<Rightarrow> nat \<Rightarrow> nat" where
  "dby data attrs i = length (filter (\<lambda>j. j \<noteq> i \<and> dominates (data ! j) (data ! i) attrs) [0..<length data])"

definition dsc :: "DataPoint list \<Rightarrow> AttributeConfig list \<Rightarrow> nat \<Rightarrow> nat" where
  "dsc data attrs i = length (filter (\<lambda>j. j \<noteq> i \<and> dominates (data ! i) (data ! j) attrs) [0..<length data])"

text \<open>Adding \<open>n\<close> to the counter stored under \<open>k\<close>.\<close>

definition bump :: "(string \<rightharpoonup> nat) \<Rightarrow> string \<Rightarrow> nat \<Rightarrow> (string \<rightharpoonup> nat)" where
  "bump m k n = m(k := map_option (\<lambda>c. c + n) (m k))"

text \<open>
  For the kernel: the comparison of two rows of the buffer in column \<open>e\<close>, the invariant
  of the four flags before column \<open>d\<close>, dominance of the row at \<open>i_off\<close> over the row at
  \<open>j_off\<close>, and the two counts of invocation \<open>i\<close> over the indices \<open>ks\<close>.
\<close>

definition lt_at :: "jsnum list \<Rightarrow> u32 \<Rightarrow> u32 \<Rightarrow> u32 \<Rightarrow> bool" where
  "lt_at buf i_off j_off e = js_lt (rd buf (i_off + e)) (rd buf (j_off + e))"

definition flags_inv :: "jsnum list \<Rightarrow> u32 \<Rightarrow> u32 \<Rightarrow> u32 \<Rightarrow> flags \<Rightarrow> bool" where
  "flags_inv buf i_off j_off d f \<longleftrightarrow>
     i_be_j f = (\<forall>e<d. \<not> lt_at buf i_off j_off e) \<and>
     j_s_i f = (\<exists>e<d. lt_at buf i_off j_off e) \<and>
     j_be_i f = (\<forall>e<d. \<not> lt_at buf j_off i_off e) \<and>
     i_s_j f = (\<exists>e<d. lt_at buf j_off i_off e)"

definition dom_at :: "jsnum list \<Rightarrow> u32 \<Rightarrow> u32 \<Rightarrow> u32 \<Rightarrow> bool" where
  "dom_at buf dims i_off j_off \<longleftrightarrow>
     (\<forall>e<dims. \<not> lt_at buf i_off j_off e) \<and> (\<exists>e<dims. lt_at buf j_off i_off e)"

definition gby :: "jsnum list \<Rightarrow> u32 \<Rightarrow> u32 \<Rightarrow> nat list \<Rightarrow> nat" where
  "gby buf dims i ks = length (filter (\<lambda>k. i \<noteq> of_nat k \<and> dom_at buf dims (of_nat k * dims) (i * dims)) ks)"

definition gsc :: "jsnum list \<Rightarrow> u32 \<Rightarrow> u32 \<Rightarrow> nat list \<Rightarrow> nat" where
  "gsc buf dims i ks = length (filter (\<lambda>k. i \<noteq> of_nat k \<and> dom_at buf dims (i * dims) (of_nat k * dims)) ks)"

text \<open>Dominance on the values as the parallel backend uploads them.\<close>

definition dominates32 :: "DataPoint \<Rightarrow> DataPoint \<Rightarrow> AttributeConfig list \<Rightarrow> bool" where
  "dominates32 a b attrs \<longleftrightarrow>
     (\<forall>attr\<in>set attrs. \<not> js_lt (f32_of (props a (key attr))) (f32_of (props b (key attr)))) \<and>
     (\<exists>attr\<in>set attrs. js_lt (f32_of (props b (key attr))) (f32_of (props a (key attr))))"

text \<open>
  The marshalling is faithful on an input when any two records compare on every active
  attribute after the conversion to float32 as their values compare in the serial backend.
\<close>

definition marshalling_faithful :: "DataPoint list \<Rightarrow> AttributeConfig list \<Rightarrow> bool" where
  "marshalling_faithful data attrs \<longleftrightarrow>
     (\<forall>p\<in>set data. \<forall>q\<in>set data. \<forall>attr\<in>set attrs.
        js_lt (f32_of (props p (key attr))) (f32_of (props q (key attr)))
          = js_lt (or_zero (props p (key attr))) (or_zero (props q (key attr))))"

section \<open>Properties of the dominance predicate\<close>

lemma js_lt_irrefl: "\<not> js_lt a a" by (cases a) auto

lemma dominates_loop_iff:
  "dominates_loop a b attrs better \<longleftrightarrow>
     (\<forall>attr\<in>set attrs. \<not> js_lt (or_zero (props a (key attr))) (or_zero (props b (key attr)))) \<and>
     (better \<or> (\<exists>attr\<in>set attrs. js_lt (or_zero (props b (key attr))) (or_zero (props a (key attr)))))"
  by (induction attrs arbitrary: better) (auto simp: Let_def js_gt_def)

lemma dominates_iff:
  "dominates a b attrs \<longleftrightarrow>
     (\<forall>attr\<in>set attrs. \<not> js_lt (or_zero (props a (key attr))) (or_zero (props b (key attr)))) \<and>
     (\<exists>attr\<in>set attrs. js_lt (or_zero (props b (key attr))) (or_zero (props a (key attr))))"
  by (simp add: dominates_def dominates_loop_iff)

lemma dominates_irrefl: "\<not> dominates a a attrs"
  by (auto simp: dominates_iff js_lt_irrefl)

lemma dominates_asym: "dominates a b attrs \<Longrightarrow> \<not> dominates b a attrs"
  by (auto simp: dominates_iff)

lemma dominates_equal:
  "\<forall>attr\<in>set attrs. or_zero (props a (key attr)) = or_zero (props b (key attr)) \<Longrightarrow> \<not> dominates a b attrs"
  by (auto simp: dominates_iff js_lt_irrefl)

section \<open>Counting and tables indexed by id\<close>

lemma count_excl:
  "\<forall>x\<in>set xs. (P x \<longrightarrow> x \<noteq> i) \<and> (Q x \<longrightarrow> x \<noteq> i) \<and> \<not> (P x \<and> Q x) \<Longrightarrow>
   length (filter P xs) + length (filter Q xs) \<le> length (filter (\<lambda>x. x \<noteq> i) xs)"
  by (induction xs) auto

lemma length_filter_neq: "i < n \<Longrightarrow> length (filter (\<lambda>k. k \<noteq> i) [0..<n]) = n - 1"
proof (induction n)
  case 0
  then show ?case by simp
next
  case (Suc n)
  show ?case
  proof (cases "i < n")
    case True
    with Suc.IH show ?thesis by simp
  next
    case False
    with Suc.prems have "i = n" by simp
    moreover have "filter (\<lambda>k. k \<noteq> n) [0..<n] = [0..<n]"
      by (rule filter_True) simp
    ultimately show ?thesis by simp
  qed
qed

lemma map_nth_ids: "map (\<lambda>i. f (data ! i)) [0..<length data] = map f data"
  by (rule nth_equalityI) auto

lemma ids_image: "(\<lambda>i. id_of (data ! i)) ` set [0..<length data] = id_of ` set data"
proof -
  have "set (map (\<lambda>i. id_of (data ! i)) [0..<length data]) = set (map id_of data)"
    by (simp only: map_nth_ids)
  then show ?thesis by simp
qed

lemma distinct_ids_nth:
  "distinct (map id_of data) \<Longrightarrow> i < length data \<Longrightarrow> j < length data \<Longrightarrow>
   id_of (data ! i) = id_of (data ! j) \<Longrightarrow> i = j"
  using nth_eq_iff_index_eq[of "map id_of data" i j] by simp

lemma table_zero_iff:
  assumes "distinct (map id_of data)"
    and "sky = (\<lambda>i. id_of (data ! i)) ` {i. i < length data \<and> c i = 0}"
    and "\<forall>i<length data. id_of (data ! i) \<noteq> ''__proto__'' \<longrightarrow> db (id_of (data ! i)) = Some (c i)"
    and "\<forall>k. k \<notin> id_of ` set data \<or> k = ''__proto__'' \<longrightarrow> db k = None"
    and "k \<noteq> ''__proto__''"
  shows "db k = Some (0::nat) \<longleftrightarrow> k \<in> sky"
proof (cases "k \<in> id_of ` set data")
  case True
  then obtain i where i: "i < length data" "k = id_of (data ! i)"
    by (auto simp: in_set_conv_nth)
  with assms(3,5) have "db k = Some (c i)" by simp
  moreover have "k \<in> sky \<longleftrightarrow> c i = 0"
    using i assms(1) unfolding assms(2) by (auto dest: distinct_ids_nth)
  ultimately show ?thesis by simp
next
  case False
  with assms(4) have "db k = None" by simp
  moreover from False have "k \<notin> sky" unfolding assms(2) by auto
  ultimately show ?thesis by simp
qed

lemma table_eq:
  assumes "\<forall>i<length data. id_of (data ! i) \<noteq> ''__proto__'' \<longrightarrow> m1 (id_of (data ! i)) = Some (c i)"
    and "\<forall>k. k \<notin> id_of ` set data \<or> k = ''__proto__'' \<longrightarrow> m1 k = None"
    and "\<forall>i<length data. id_of (data ! i) \<noteq> ''__proto__'' \<longrightarrow> m2 (id_of (data ! i)) = Some (c i)"
    and "\<forall>k. k \<notin> id_of ` set data \<or> k = ''__proto__'' \<longrightarrow> m2 k = None"
  shows "m1 = (m2 :: string \<rightharpoonup> nat)"
proof
  fix k
  show "m1 k = m2 k"
  proof (cases "k \<in> id_of ` set data \<and> k \<noteq> ''__proto__''")
    case True
    then obtain i where i: "i < length data" "k = id_of (data ! i)" "k \<noteq> ''__proto__''"
      by (auto simp: in_set_conv_nth)
    with assms(1,3) show ?thesis by simp
  next
    case False
    with assms(2,4) show ?thesis by auto
  qed
qed

section \<open>The serial scan\<close>

text \<open>
  The inner loop adds the two counts of record \<open>i\<close> to its counters; with unique ids the
  outer loop leaves under every id the counts of its record.
\<close>

lemma bump_0: "bump m k 0 = m"
  by (auto simp: bump_def option.map_ident)

lemma incr_bump: "incr (bump m k n) k = bump m k (Suc n)"
  by (cases "m k") (auto simp: incr_def bump_def)

lemma bump_apply: "bump m k n k' = (if k' = k then map_option (\<lambda>c. c + n) (m k) else m k')"
  by (simp add: bump_def)

lemma inner_step_eq:
  "inner_step data attrs i j (isd, ds, db) =
     (isd \<or> (j \<noteq> i \<and> dominates (data ! j) (data ! i) attrs),
      if j \<noteq> i \<and> dominates (data ! i) (data ! j) attrs then incr ds (id_of (data ! i)) else ds,
      if j \<noteq> i \<and> dominates (data ! j) (data ! i) attrs then incr db (id_of (data ! i)) else db)"
  by (auto simp: inner_step_def Let_def)

lemma inner_fold:
  "fold (inner_step data attrs i) js (isd, ds, db) =
     (isd \<or> (\<exists>j\<in>set js. j \<noteq> i \<and> dominates (data ! j) (data ! i) attrs),
      bump ds (id_of (data ! i)) (length (filter (\<lambda>j. j \<noteq> i \<and> dominates (data ! i) (data ! j) attrs) js)),
      bump db (id_of (data ! i)) (length (filter (\<lambda>j. j \<noteq> i \<and> dominates (data ! j) (data ! i) attrs) js)))"
proof (induction js rule: rev_induct)
  case Nil
  show ?case by (simp add: bump_0)
next
  case (snoc j js)
  show ?case
    by (simp add: snoc inner_step_eq incr_bump) 
qed

lemma outer_step_eq:
  "outer_step data attrs i (sky, ds, db) =
     (if dby data attrs i = 0 then insert (id_of (data ! i)) sky else sky,
      bump ds (id_of (data ! i)) (dsc data attrs i),
      bump db (id_of (data ! i)) (dby data attrs i))"
  by (auto simp: outer_step_def inner_fold dby_def dsc_def filter_empty_conv)

lemma outer_fold:
  assumes "distinct (map (\<lambda>i. id_of (data ! i)) is)"
    and "fold (outer_step data attrs) is (sky, ds, db) = (sky', ds', db')"
  shows "sky' = sky \<union> (\<lambda>i. id_of (data ! i)) ` {i \<in> set is. dby data attrs i = 0}"
    and "\<forall>i\<in>set is. ds' (id_of (data ! i)) = map_option (\<lambda>c. c + dsc data attrs i) (ds (id_of (data ! i)))"
    and "\<forall>i\<in>set is. db' (id_of (data ! i)) = map_option (\<lambda>c. c + dby data attrs i) (db (id_of (data ! i)))"
    and "\<forall>k. k \<notin> (\<lambda>i. id_of (data ! i)) ` set is \<longrightarrow> ds' k = ds k \<and> db' k = db k"
  using assms
proof (induction "is" arbitrary: sky' ds' db' rule: rev_induct)
  case Nil
  { case 1 then show ?case by simp next
    case 2 then show ?case by simp next
    case 3 then show ?case by simp next
    case 4 then show ?case by simp }
next
  case (snoc x xs)
  obtain s1 d1 b1 where f: "fold (outer_step data attrs) xs (sky, ds, db) = (s1, d1, b1)"
    by (metis prod_cases3)
  { case 1
    from 1 have dist: "distinct (map (\<lambda>i. id_of (data ! i)) xs)" by simp
    from snoc.IH(1)[OF dist f] 1(2) show ?case
      by (auto simp: f outer_step_eq split: if_splits)
  next
    case 2
    from 2 have dist: "distinct (map (\<lambda>i. id_of (data ! i)) xs)"
      and nin: "id_of (data ! x) \<notin> (\<lambda>i. id_of (data ! i)) ` set xs" by auto
    from snoc.IH(2)[OF dist f] snoc.IH(4)[OF dist f] nin 2(2) show ?case
      by (auto simp: f outer_step_eq bump_apply image_iff)
  next
    case 3
    from 3 have dist: "distinct (map (\<lambda>i. id_of (data ! i)) xs)"
      and nin: "id_of (data ! x) \<notin> (\<lambda>i. id_of (data ! i)) ` set xs" by auto
    from snoc.IH(3)[OF dist f] snoc.IH(4)[OF dist f] nin 3(2) show ?case
      by (auto simp: f outer_step_eq bump_apply image_iff)
  next
    case 4
    from 4 have dist: "distinct (map (\<lambda>i. id_of (data ! i)) xs)" by simp
    from snoc.IH(4)[OF dist f] 4(2) show ?case
      by (auto simp: f outer_step_eq bump_apply image_iff)
  }
qed

lemma assign_apply:
  "assign m k v k' = (if k' = k \<and> k \<noteq> ''__proto__'' then Some v else m k')"
  by (simp add: assign_def)

lemma init_fold:
  "fold (\<lambda>p (ds, db). (assign ds (id_of p) 0, assign db (id_of p) 0)) data (ds, db) =
     (\<lambda>k. if k \<in> id_of ` set data \<and> k \<noteq> ''__proto__'' then Some 0 else ds k,
      \<lambda>k. if k \<in> id_of ` set data \<and> k \<noteq> ''__proto__'' then Some 0 else db k)"
  by (induction data arbitrary: ds db) (auto simp: fun_eq_iff assign_apply)

lemma init_counters_eq:
  "init_counters data =
     (\<lambda>k. if k \<in> id_of ` set data \<and> k \<noteq> ''__proto__'' then Some 0 else None,
      \<lambda>k. if k \<in> id_of ` set data \<and> k \<noteq> ''__proto__'' then Some 0 else None)"
  by (simp add: init_counters_def init_fold)

lemma cpu_result:
  assumes dist: "distinct (map id_of data)"
  shows "skylineIds (computeSkylineCPU t data attrs) =
           (\<lambda>i. id_of (data ! i)) ` {i. i < length data \<and> dby data attrs i = 0}"
    and "\<forall>i<length data. id_of (data ! i) \<noteq> ''__proto__'' \<longrightarrow>
           dominanceScores (computeSkylineCPU t data attrs) (id_of (data ! i)) = Some (dsc data attrs i)"
    and "\<forall>i<length data. id_of (data ! i) \<noteq> ''__proto__'' \<longrightarrow>
           dominatedBy (computeSkylineCPU t data attrs) (id_of (data ! i)) = Some (dby data attrs i)"
    and "\<forall>k. k \<notin> id_of ` set data \<or> k = ''__proto__'' \<longrightarrow>
           dominanceScores (computeSkylineCPU t data attrs) k = None
            \<and> dominatedBy (computeSkylineCPU t data attrs) k = None"
proof -
  obtain sky ds db where f:
    "fold (outer_step data attrs) [0..<length data] ({}, init_counters data) = (sky, ds, db)"
    by (metis prod_cases3)
  have d: "distinct (map (\<lambda>i. id_of (data ! i)) [0..<length data])"
    using dist by (simp only: map_nth_ids)
  obtain ds0 db0 where i0: "init_counters data = (ds0, db0)"
    and ds0: "ds0 = (\<lambda>k. if k \<in> id_of ` set data \<and> k \<noteq> ''__proto__'' then Some 0 else None)"
    and db0: "db0 = (\<lambda>k. if k \<in> id_of ` set data \<and> k \<noteq> ''__proto__'' then Some 0 else None)"
    by (simp add: init_counters_eq)
  note of = outer_fold[OF d f[unfolded i0]]
  have r: "data \<noteq> [] \<Longrightarrow> computeSkylineCPU t data attrs =
     \<lparr>skylineIds = sky, dominanceScores = ds, dominatedBy = db, computationTime = t, method_tag = CPU\<rparr>"
    by (simp add: computeSkylineCPU_def f)
  have e: "computeSkylineCPU t [] attrs =
     \<lparr>skylineIds = {}, dominanceScores = Map.empty, dominatedBy = Map.empty, computationTime = Fin 0, method_tag = CPU\<rparr>"
    by (simp add: computeSkylineCPU_def)
  have in_ids: "\<And>i. i < length data \<Longrightarrow> id_of (data ! i) \<in> id_of ` set data" by simp
  have ds_at: "\<And>i. i < length data \<Longrightarrow>
      ds (id_of (data ! i)) = map_option (\<lambda>c. c + dsc data attrs i) (ds0 (id_of (data ! i)))"
    using of(2) by simp
  have db_at: "\<And>i. i < length data \<Longrightarrow>
      db (id_of (data ! i)) = map_option (\<lambda>c. c + dby data attrs i) (db0 (id_of (data ! i)))"
    using of(3) by simp
  have out: "\<And>k. k \<notin> id_of ` set data \<Longrightarrow> ds k = ds0 k \<and> db k = db0 k"
    using of(4)[unfolded ids_image] by simp
  have none: "\<And>k. k \<notin> id_of ` set data \<or> k = ''__proto__'' \<Longrightarrow> ds k = None \<and> db k = None"
  proof -
    fix k assume k: "k \<notin> id_of ` set data \<or> k = ''__proto__''"
    show "ds k = None \<and> db k = None"
    proof (cases "k \<in> id_of ` set data")
      case False
      with out[OF False] show ?thesis by (simp add: ds0 db0)
    next
      case True
      with k have p: "k = ''__proto__''" by simp
      from True obtain i where i: "i < length data" "k = id_of (data ! i)"
        by (auto simp: in_set_conv_nth)
      from ds_at[OF i(1)] db_at[OF i(1)] i(2) p show ?thesis by (simp add: ds0 db0)
    qed
  qed
  show "skylineIds (computeSkylineCPU t data attrs) =
           (\<lambda>i. id_of (data ! i)) ` {i. i < length data \<and> dby data attrs i = 0}"
    using of(1) by (cases "data = []") (auto simp: r e)
  show "\<forall>i<length data. id_of (data ! i) \<noteq> ''__proto__'' \<longrightarrow>
           dominanceScores (computeSkylineCPU t data attrs) (id_of (data ! i)) = Some (dsc data attrs i)"
    using ds_at in_ids by (cases "data = []") (auto simp: r e ds0)
  show "\<forall>i<length data. id_of (data ! i) \<noteq> ''__proto__'' \<longrightarrow>
           dominatedBy (computeSkylineCPU t data attrs) (id_of (data ! i)) = Some (dby data attrs i)"
    using db_at in_ids by (cases "data = []") (auto simp: r e db0)
  show "\<forall>k. k \<notin> id_of ` set data \<or> k = ''__proto__'' \<longrightarrow>
           dominanceScores (computeSkylineCPU t data attrs) k = None
            \<and> dominatedBy (computeSkylineCPU t data attrs) k = None"
    using none by (cases "data = []") (auto simp: r e)
qed

lemma cpu_bound: "i < length data \<Longrightarrow> dsc data attrs i + dby data attrs i \<le> length data - 1"
  unfolding dsc_def dby_def
  using count_excl[of "[0..<length data]" "\<lambda>j. j \<noteq> i \<and> dominates (data ! i) (data ! j) attrs" i
                      "\<lambda>j. j \<noteq> i \<and> dominates (data ! j) (data ! i) attrs"]
  by (auto simp: length_filter_neq dest: dominates_asym)

lemma cpu_single:
  "computeSkylineCPU t [p] attrs =
     \<lparr>skylineIds = {id_of p}, dominanceScores = assign Map.empty (id_of p) 0,
      dominatedBy = assign Map.empty (id_of p) 0, computationTime = t, method_tag = CPU\<rparr>"
  by (simp add: computeSkylineCPU_def outer_step_def inner_step_def init_counters_def)

section \<open>32-bit indices\<close>

lemma w_less_Suc: "d < m \<Longrightarrow> (e < d + 1) = (e < d \<or> e = d)" for d m e :: u32
  by unat_arith

lemma w_Suc_le: "d < m \<Longrightarrow> d + 1 \<le> m" for d m :: u32
  by (rule inc_le)

lemma w_unat_Suc: "d < m \<Longrightarrow> unat (d + 1) = Suc (unat d)" for d m :: u32
  by unat_arith

lemma u32_unat_of_nat: "n < 2 ^ 32 \<Longrightarrow> unat (of_nat n :: u32) = n"
  by (simp add: unat_of_nat)

lemma u32_of_nat_less: "i < n \<Longrightarrow> n < 2 ^ 32 \<Longrightarrow> (of_nat i :: u32) < of_nat n"
  by (simp add: word_less_nat_alt u32_unat_of_nat)

lemma u32_of_nat_inj: "a < 2 ^ 32 \<Longrightarrow> b < 2 ^ 32 \<Longrightarrow> (of_nat a :: u32) = of_nat b \<longleftrightarrow> a = b"
  by (metis u32_unat_of_nat)

lemma u32_all_less:
  assumes "D < 2 ^ 32"
  shows "(\<forall>e<(of_nat D :: u32). P e) \<longleftrightarrow> (\<forall>d<D. P (of_nat d))"
proof
  assume l: "\<forall>e<(of_nat D :: u32). P e"
  show "\<forall>d<D. P (of_nat d)"
    using l assms by (auto simp: u32_of_nat_less)
next
  assume r: "\<forall>d<D. P (of_nat d)"
  show "\<forall>e<(of_nat D :: u32). P e"
  proof (intro allI impI)
    fix e :: u32 assume "e < of_nat D"
    then have "unat e < D" using assms by (simp add: word_less_nat_alt u32_unat_of_nat)
    with r have "P (of_nat (unat e))" by blast
    then show "P e" by simp
  qed
qed

lemma u32_ex_less:
  assumes "D < 2 ^ 32"
  shows "(\<exists>e<(of_nat D :: u32). P e) \<longleftrightarrow> (\<exists>d<D. P (of_nat d))"
  using u32_all_less[OF assms, of "\<lambda>e. \<not> P e"] by blast

section \<open>The kernel\<close>

text \<open>
  The loop over the columns, with its \<open>break\<close>, decides dominance between two rows of the
  buffer in both directions; the loop over \<open>j\<close> counts; the dispatch stores the counts of
  every record below \<open>2^32\<close>.
\<close>

lemma flags_inv_step:
  assumes "flags_inv buf i_off j_off d f" "d < dims"
  shows "flags_inv buf i_off j_off (d + 1)
     (let v_i = rd buf (i_off + d);
            v_j = rd buf (j_off + d);
            f = (if js_lt v_i v_j then f\<lparr>i_be_j := False, j_s_i := True\<rparr> else f);
            f = (if js_gt v_i v_j then f\<lparr>j_be_i := False, i_s_j := True\<rparr> else f) in f)"
  using assms(1) unfolding flags_inv_def Let_def w_less_Suc[OF assms(2)] js_gt_def
  by (auto simp: lt_at_def)

lemma dim_loop_flags:
  assumes "flags_inv buf i_off j_off d f" "d \<le> dims"
  shows "(i_be_j (dim_loop buf dims i_off j_off d f) \<and> i_s_j (dim_loop buf dims i_off j_off d f))
           = dom_at buf dims i_off j_off
       \<and> (j_be_i (dim_loop buf dims i_off j_off d f) \<and> j_s_i (dim_loop buf dims i_off j_off d f))
           = dom_at buf dims j_off i_off"
  using assms
proof (induction "unat dims - unat d" arbitrary: d f rule: less_induct)
  case less
  show ?case
  proof (cases "d < dims")
    case False
    with less.prems(2) have "d = dims" by simp
    with less.prems(1) show ?thesis
      by (subst (1 2 3 4) dim_loop.simps) (auto simp: flags_inv_def dom_at_def)
  next
    case True
    define f2 where "f2 = (let v_i = rd buf (i_off + d);
            v_j = rd buf (j_off + d);
            f = (if js_lt v_i v_j then f\<lparr>i_be_j := False, j_s_i := True\<rparr> else f);
            f = (if js_gt v_i v_j then f\<lparr>j_be_i := False, i_s_j := True\<rparr> else f) in f)"
    have inv2: "flags_inv buf i_off j_off (d + 1) f2"
      unfolding f2_def by (rule flags_inv_step[OF less.prems(1) True])
    have le2: "d + 1 \<le> dims" by (rule w_Suc_le[OF True])
    have step: "dim_loop buf dims i_off j_off d f =
       (if \<not> i_be_j f2 \<and> \<not> j_be_i f2 then f2 else dim_loop buf dims i_off j_off (d + 1) f2)"
      by (subst dim_loop.simps) (simp add: True f2_def Let_def)
    show ?thesis
    proof (cases "\<not> i_be_j f2 \<and> \<not> j_be_i f2")
      case brk: True
      from brk inv2 obtain e1 e2 where "e1 < d + 1" "lt_at buf i_off j_off e1"
        "e2 < d + 1" "lt_at buf j_off i_off e2"
        by (auto simp: flags_inv_def)
      with le2 have "\<not> dom_at buf dims i_off j_off" "\<not> dom_at buf dims j_off i_off"
        by (auto simp: dom_at_def)
      with brk show ?thesis by (simp add: step)
    next
      case nobrk: False
      have m: "unat dims - unat (d + 1) < unat dims - unat d"
        using True by (simp add: w_unat_Suc[OF True] word_less_nat_alt)
      from less.hyps[OF m inv2 le2] nobrk show ?thesis by (auto simp: step)
    qed
  qed
qed

lemma flags_inv_init:
  "flags_inv buf i_off j_off 0 \<lparr>i_be_j = True, i_s_j = False, j_be_i = True, j_s_i = False\<rparr>"
  by (simp add: flags_inv_def)

lemma j_step_eq:
  "j_step buf dims i j (d_by, d_score) =
     (if i \<noteq> j \<and> dom_at buf dims (j * dims) (i * dims) then d_by + 1 else d_by,
      if i \<noteq> j \<and> dom_at buf dims (i * dims) (j * dims) then d_score + 1 else d_score)"
  using dim_loop_flags[OF flags_inv_init, of dims buf "i * dims" "j * dims"]
  by (simp add: j_step_def Let_def)

lemma dom_at_asym: "dom_at buf dims a b \<Longrightarrow> \<not> dom_at buf dims b a"
  by (auto simp: dom_at_def)

lemma j_loop_fold:
  "j_loop buf dims count i j acc =
     fold (\<lambda>k. j_step buf dims i (of_nat k)) [unat j..<unat count] acc"
proof (induction buf dims count i j acc rule: j_loop.induct)
  case (1 buf dims count i j acc)
  show ?case
  proof (cases "j < count")
    case True
    then have u: "unat j < unat count" by (simp add: word_less_nat_alt)
    have "[unat j..<unat count] = unat j # [unat (j + 1)..<unat count]"
      using u by (simp add: w_unat_Suc[OF True] upt_conv_Cons)
    with 1[OF True] True show ?thesis
      by (subst j_loop.simps) simp
  next
    case False
    then have "\<not> unat j < unat count" by (simp add: word_less_nat_alt)
    with False show ?thesis by (subst j_loop.simps) simp
  qed
qed

lemma j_fold:
  "fold (\<lambda>k. j_step buf dims i (of_nat k)) ks (a, b) =
     (a + of_nat (gby buf dims i ks), b + of_nat (gsc buf dims i ks))"
  by (induction ks arbitrary: a b) (auto simp: j_step_eq gby_def gsc_def)

lemma shader_main_eq:
  "i < count \<Longrightarrow> shader_main buf dims count i =
     Some (of_nat (gby buf dims i [0..<unat count]), of_nat (gsc buf dims i [0..<unat count]))"
  by (simp add: shader_main_def j_loop_fold j_fold)

lemma dispatch_fold:
  "G \<le> 2 ^ 32 \<Longrightarrow>
   fold (invoke invocation) [0..<G] results
     = (\<lambda>g. if g < G then (case invocation (of_nat g) of None \<Rightarrow> results g | Some r \<Rightarrow> r)
             else results g)"
proof (induction G)
  case 0
  show ?case by simp
next
  case (Suc G)
  then have G: "G < 2 ^ 32" and IH: "fold (invoke invocation) [0..<G] results
     = (\<lambda>g. if g < G then (case invocation (of_nat g) of None \<Rightarrow> results g | Some r \<Rightarrow> r)
             else results g)" by simp_all
  have u: "unat (of_nat G :: u32) = G" using G by (rule u32_unat_of_nat)
  have step: "fold (invoke invocation) [0..<Suc G] results =
      invoke invocation G (fold (invoke invocation) [0..<G] results)" by simp
  show ?case
    unfolding step IH
    by (auto simp: invoke_def Let_def u fun_eq_iff less_Suc_eq split: option.splits)
qed

lemma groups_bounds:
  assumes "count < 2 ^ 32"
  shows "(count + 63) div 64 * 64 \<le> (2 :: nat) ^ 32" and "count \<le> (count + 63) div 64 * 64"
  using assms by simp_all

lemma kernel_results_eq:
  assumes "length data < 2 ^ 32" "i < length data"
  shows "kernel_results env data attrs i =
     (of_nat (gby (flatten data attrs) (of_nat (length attrs)) (of_nat i) [0..<length data]),
      of_nat (gsc (flatten data attrs) (of_nat (length attrs)) (of_nat i) [0..<length data]))"
proof -
  have i: "i < (length data + 63) div 64 * 64" using assms(2) by simp
  have lt: "(of_nat i :: u32) < of_nat (length data)"
    using assms by (simp add: u32_of_nat_less)
  show ?thesis
    using i
    by (simp add: kernel_results_def dispatchWorkgroups_def Let_def
        dispatch_fold[OF groups_bounds(1)[OF assms(1)]] shader_main_eq[OF lt]
        u32_unat_of_nat[OF assms(1)])
qed

lemma gpu_bound:
  assumes "i < n" "n < 2 ^ 32"
  shows "gby buf dims (of_nat i) [0..<n] + gsc buf dims (of_nat i) [0..<n] \<le> n - 1"
proof -
  have "gby buf dims (of_nat i) [0..<n] + gsc buf dims (of_nat i) [0..<n]
          \<le> length (filter (\<lambda>k. k \<noteq> i) [0..<n])"
    unfolding gby_def gsc_def
    using assms by (intro count_excl) (auto simp: u32_of_nat_inj dest: dom_at_asym)
  then show ?thesis by (simp add: length_filter_neq[OF assms(1)])
qed

lemma kernel_results_unat:
  assumes "length data < 2 ^ 32" "i < length data"
  shows "unat (fst (kernel_results env data attrs i)) + unat (snd (kernel_results env data attrs i))
           \<le> length data - 1"
proof -
  let ?b = "gby (flatten data attrs) (of_nat (length attrs)) (of_nat i) [0..<length data]"
  let ?s = "gsc (flatten data attrs) (of_nat (length attrs)) (of_nat i) [0..<length data]"
  have le: "?b + ?s \<le> length data - 1" by (rule gpu_bound[OF assms(2,1)])
  with assms(1) have "?b < 2 ^ 32" "?s < 2 ^ 32" by simp_all
  then have "unat (of_nat ?b :: u32) = ?b" "unat (of_nat ?s :: u32) = ?s"
    by (simp_all only: u32_unat_of_nat)
  with le show ?thesis by (simp only: kernel_results_eq[OF assms] fst_conv snd_conv)
qed

section \<open>The upload\<close>

text \<open>
  Row \<open>k\<close> of the buffer holds the float32 values of record \<open>k\<close>, so the kernel counts
  dominance on those values.
\<close>

lemma concat_map_nth:
  "\<forall>x\<in>set xs. length (f x) = D \<Longrightarrow> k < length xs \<Longrightarrow> d < D \<Longrightarrow>
   concat (map f xs) ! (k * D + d) = f (xs ! k) ! d"
proof (induction xs arbitrary: k)
  case Nil
  then show ?case by simp
next
  case (Cons x xs)
  show ?case
  proof (cases k)
    case 0
    with Cons.prems show ?thesis by (simp add: nth_append)
  next
    case (Suc k')
    with Cons.prems have "concat (map f xs) ! (k' * D + d) = f (xs ! k') ! d"
      by (intro Cons.IH) auto
    with Cons.prems Suc show ?thesis by (simp add: nth_append)
  qed
qed

lemma flatten_length: "length (flatten data attrs) = length data * length attrs"
  by (induction data) (auto simp: flatten_def)

lemma flatten_nth:
  "k < length data \<Longrightarrow> d < length attrs \<Longrightarrow>
   flatten data attrs ! (k * length attrs + d) = f32_of (props (data ! k) (key (attrs ! d)))"
  unfolding flatten_def
  by (subst concat_map_nth[where D = "length attrs"]) auto

lemma rd_flat:
  assumes "k < length data" "d < length attrs" "length data * length attrs < 2 ^ 32"
  shows "rd (flatten data attrs) (of_nat k * of_nat (length attrs) + of_nat d)
           = f32_of (props (data ! k) (key (attrs ! d)))"
proof -
  have "k * length attrs + d < Suc k * length attrs" using assms(2) by simp
  also have "\<dots> \<le> length data * length attrs"
    using assms(1) by (intro mult_le_mono1) simp
  finally have lt: "k * length attrs + d < length data * length attrs" .
  with assms(3) have "k * length attrs + d < 2 ^ 32" by simp
  then have "unat (of_nat (k * length attrs + d) :: u32) = k * length attrs + d"
    by (rule u32_unat_of_nat)
  then have "unat (of_nat k * of_nat (length attrs) + of_nat d :: u32) = k * length attrs + d"
    by simp
  with lt show ?thesis
    by (simp add: rd_def flatten_length flatten_nth[OF assms(1,2)])
qed

lemma dom_at_flat:
  assumes "i < length data" "k < length data" "length data * length attrs < 2 ^ 32"
  shows "dom_at (flatten data attrs) (of_nat (length attrs))
           (of_nat k * of_nat (length attrs)) (of_nat i * of_nat (length attrs))
         \<longleftrightarrow> dominates32 (data ! k) (data ! i) attrs"
proof -
  have D: "length attrs < 2 ^ 32"
  proof -
    have "length attrs \<le> length data * length attrs" using assms(1) by (cases "length data") auto
    then show ?thesis using assms(3) by (rule le_less_trans)
  qed
  have lt: "\<And>a b d. a < length data \<Longrightarrow> b < length data \<Longrightarrow> d < length attrs \<Longrightarrow>
      lt_at (flatten data attrs) (of_nat a * of_nat (length attrs)) (of_nat b * of_nat (length attrs)) (of_nat d)
       = js_lt (f32_of (props (data ! a) (key (attrs ! d)))) (f32_of (props (data ! b) (key (attrs ! d))))"
    by (simp only: lt_at_def rd_flat[OF _ _ assms(3)])
  show ?thesis
    unfolding dom_at_def dominates32_def u32_all_less[OF D] u32_ex_less[OF D]
      all_set_conv_all_nth Bex_def in_set_conv_nth
    using assms(1,2) by (auto simp: lt)
qed

lemma gby_flat:
  assumes "i < length data" "length data * length attrs < 2 ^ 32" "length data < 2 ^ 32"
  shows "gby (flatten data attrs) (of_nat (length attrs)) (of_nat i) [0..<length data]
           = length (filter (\<lambda>k. k \<noteq> i \<and> dominates32 (data ! k) (data ! i) attrs) [0..<length data])"
    and "gsc (flatten data attrs) (of_nat (length attrs)) (of_nat i) [0..<length data]
           = length (filter (\<lambda>k. k \<noteq> i \<and> dominates32 (data ! i) (data ! k) attrs) [0..<length data])"
proof -
  note n = assms(3)
  show "gby (flatten data attrs) (of_nat (length attrs)) (of_nat i) [0..<length data]
           = length (filter (\<lambda>k. k \<noteq> i \<and> dominates32 (data ! k) (data ! i) attrs) [0..<length data])"
    unfolding gby_def
    using assms n by (intro arg_cong[where f = length] filter_cong) (auto simp: dom_at_flat u32_of_nat_inj)
  show "gsc (flatten data attrs) (of_nat (length attrs)) (of_nat i) [0..<length data]
           = length (filter (\<lambda>k. k \<noteq> i \<and> dominates32 (data ! i) (data ! k) attrs) [0..<length data])"
    unfolding gsc_def
    using assms n by (intro arg_cong[where f = length] filter_cong) (auto simp: dom_at_flat u32_of_nat_inj)
qed

lemma kernel_results_counts:
  assumes "length data * length attrs < 2 ^ 32" "length data < 2 ^ 32" "i < length data"
  shows "kernel_results env data attrs i =
     (of_nat (length (filter (\<lambda>k. k \<noteq> i \<and> dominates32 (data ! k) (data ! i) attrs) [0..<length data])),
      of_nat (length (filter (\<lambda>k. k \<noteq> i \<and> dominates32 (data ! i) (data ! k) attrs) [0..<length data])))"
  by (simp only: kernel_results_eq[OF assms(2,3)] gby_flat[OF assms(3,1,2)])

lemma dominates32_eq:
  "marshalling_faithful data attrs \<Longrightarrow> p \<in> set data \<Longrightarrow> q \<in> set data \<Longrightarrow>
   dominates32 p q attrs = dominates p q attrs"
  by (simp add: marshalling_faithful_def dominates32_def dominates_iff)

lemma kernel_results_faithful:
  assumes "length data * length attrs < 2 ^ 32" "length data < 2 ^ 32" "i < length data"
    and "marshalling_faithful data attrs"
  shows "kernel_results env data attrs i = (of_nat (dby data attrs i), of_nat (dsc data attrs i))"
proof -
  have "filter (\<lambda>k. k \<noteq> i \<and> dominates32 (data ! k) (data ! i) attrs) [0..<length data]
      = filter (\<lambda>k. k \<noteq> i \<and> dominates (data ! k) (data ! i) attrs) [0..<length data]"
    using assms(3,4) by (intro filter_cong) (auto simp: dominates32_eq)
  moreover have "filter (\<lambda>k. k \<noteq> i \<and> dominates32 (data ! i) (data ! k) attrs) [0..<length data]
      = filter (\<lambda>k. k \<noteq> i \<and> dominates (data ! i) (data ! k) attrs) [0..<length data]"
    using assms(3,4) by (intro filter_cong) (auto simp: dominates32_eq)
  ultimately show ?thesis
    by (simp only: kernel_results_counts[OF assms(1,2,3)] dby_def dsc_def)
qed

lemma exact_values_faithful:
  assumes "\<forall>p\<in>set data. \<forall>attr\<in>set attrs.
             \<exists>x. props p (key attr) = Some (Fin x) \<and> fround (Fin x) = Fin x"
  shows "marshalling_faithful data attrs"
proof -
  have "f32_of (props p (key attr)) = or_zero (props p (key attr))"
    if "p \<in> set data" "attr \<in> set attrs" for p attr
  proof -
    from assms that obtain x where "props p (key attr) = Some (Fin x)" "fround (Fin x) = Fin x"
      by blast
    then show ?thesis by (simp add: f32_of_def)
  qed
  then show ?thesis by (simp add: marshalling_faithful_def)
qed

section \<open>The host\<close>

lemma decode_step_eq:
  "decode_step data res i (sky, ds, db) =
     (if unat (fst (res i)) = 0 then insert (id_of (data ! i)) sky else sky,
      assign ds (id_of (data ! i)) (unat (snd (res i))),
      assign db (id_of (data ! i)) (unat (fst (res i))))"
  by (simp add: decode_step_def Let_def)

lemma decode_fold:
  assumes "distinct (map (\<lambda>i. id_of (data ! i)) is)"
    and "fold (decode_step data res) is (sky, ds, db) = (sky', ds', db')"
  shows "sky' = sky \<union> (\<lambda>i. id_of (data ! i)) ` {i \<in> set is. unat (fst (res i)) = 0}"
    and "\<forall>i\<in>set is. id_of (data ! i) \<noteq> ''__proto__'' \<longrightarrow>
           ds' (id_of (data ! i)) = Some (unat (snd (res i)))"
    and "\<forall>i\<in>set is. id_of (data ! i) \<noteq> ''__proto__'' \<longrightarrow>
           db' (id_of (data ! i)) = Some (unat (fst (res i)))"
    and "\<forall>k. k \<notin> (\<lambda>i. id_of (data ! i)) ` set is \<or> k = ''__proto__'' \<longrightarrow>
           ds' k = ds k \<and> db' k = db k"
  using assms
proof (induction "is" arbitrary: sky' ds' db' rule: rev_induct)
  case Nil
  { case 1 then show ?case by simp next
    case 2 then show ?case by simp next
    case 3 then show ?case by simp next
    case 4 then show ?case by simp }
next
  case (snoc x xs)
  obtain s1 d1 b1 where f: "fold (decode_step data res) xs (sky, ds, db) = (s1, d1, b1)"
    by (metis prod_cases3)
  { case 1
    from 1 have dist: "distinct (map (\<lambda>i. id_of (data ! i)) xs)" by simp
    from snoc.IH(1)[OF dist f] 1(2) show ?case
      by (auto simp: f decode_step_eq split: if_splits)
  next
    case 2
    from 2 have dist: "distinct (map (\<lambda>i. id_of (data ! i)) xs)"
      and nin: "id_of (data ! x) \<notin> (\<lambda>i. id_of (data ! i)) ` set xs" by auto
    from snoc.IH(2)[OF dist f] nin 2(2) show ?case
      by (auto simp: f decode_step_eq assign_apply image_iff)
  next
    case 3
    from 3 have dist: "distinct (map (\<lambda>i. id_of (data ! i)) xs)"
      and nin: "id_of (data ! x) \<notin> (\<lambda>i. id_of (data ! i)) ` set xs" by auto
    from snoc.IH(3)[OF dist f] nin 3(2) show ?case
      by (auto simp: f decode_step_eq assign_apply image_iff)
  next
    case 4
    from 4 have dist: "distinct (map (\<lambda>i. id_of (data ! i)) xs)" by simp
    from snoc.IH(4)[OF dist f] 4(2) show ?case
      by (auto simp: f decode_step_eq assign_apply image_iff)
  }
qed

lemma gpu_empty:
  "data = [] \<or> attrs = [] \<Longrightarrow> computeSkylineWebGPU env st t data attrs =
     (Inr \<lparr>skylineIds = {}, dominanceScores = Map.empty, dominatedBy = Map.empty,
                 computationTime = t, method_tag = WebGPU\<rparr>, st, [])"
  by (auto simp: computeSkylineWebGPU_def)

lemma gpu_empty_fields:
  assumes "computeSkylineWebGPU env st t data attrs = (Inr r, st', ops)" "data = [] \<or> attrs = []"
  shows "skylineIds r = {}" "dominanceScores r = Map.empty" "dominatedBy r = Map.empty"
  using assms(1) unfolding gpu_empty[OF assms(2)] by auto

lemma gpu_success:
  assumes "computeSkylineWebGPU env st t data attrs = (Inr r, st', ops)" "data \<noteq> []" "attrs \<noteq> []"
  shows "fold (decode_step data (kernel_results env data attrs)) [0..<length data]
           ({}, Map.empty, Map.empty) = (skylineIds r, dominanceScores r, dominatedBy r)"
  using assms
  by (auto simp: computeSkylineWebGPU_def Let_def split: if_splits prod.splits sum.splits)

lemma gpu_run:
  assumes "data \<noteq> []" "attrs \<noteq> []" "enums env" "getGPUState env st = (Inr g, st1)"
    and "map_readback (mapAsync_ok env) = (Inr (), ops)"
    and "fold (decode_step data (kernel_results env data attrs)) [0..<length data]
           ({}, Map.empty, Map.empty) = (sky, ds, db)"
  shows "computeSkylineWebGPU env st t data attrs =
     (Inr \<lparr>skylineIds = sky, dominanceScores = ds, dominatedBy = db,
            computationTime = t, method_tag = WebGPU\<rparr>,
      st1\<lparr>dataBuf := ensureBuffer (dataBuf st1) (4 * length (flatten data attrs)),
          resultBuf := ensureBuffer (resultBuf st1) (length data * 8),
          uniformBuf := ensureBuffer (uniformBuf st1) 8,
          readbackBuf := ensureBuffer (readbackBuf st1) (length data * 8)\<rparr>,
      ops @ [GetMappedRange, Unmap])"
  using assms by (simp add: computeSkylineWebGPU_def Let_def)

lemma gpu_returns:
  assumes "enums env" "gpuStatePromise st = Some (Inr g)" "mapAsync_ok env 0 \<or> mapAsync_ok env 1"
  shows "\<exists>r. fst (computeSkylineWebGPU env st t data attrs) = Inr r"
  using assms
  by (auto simp: computeSkylineWebGPU_def getGPUState_def map_readback_def Let_def split: prod.splits)

lemma gpu_result:
  assumes dist: "distinct (map id_of data)"
    and run: "computeSkylineWebGPU env st t data attrs = (Inr r, st', ops)"
    and ne: "data \<noteq> []" "attrs \<noteq> []"
  shows "skylineIds r =
           (\<lambda>i. id_of (data ! i)) ` {i. i < length data \<and> unat (fst (kernel_results env data attrs i)) = 0}"
    and "\<forall>i<length data. id_of (data ! i) \<noteq> ''__proto__'' \<longrightarrow>
           dominanceScores r (id_of (data ! i)) = Some (unat (snd (kernel_results env data attrs i)))"
    and "\<forall>i<length data. id_of (data ! i) \<noteq> ''__proto__'' \<longrightarrow>
           dominatedBy r (id_of (data ! i)) = Some (unat (fst (kernel_results env data attrs i)))"
    and "\<forall>k. k \<notin> id_of ` set data \<or> k = ''__proto__'' \<longrightarrow>
           dominanceScores r k = None \<and> dominatedBy r k = None"
proof -
  have d: "distinct (map (\<lambda>i. id_of (data ! i)) [0..<length data])"
    using dist by (simp only: map_nth_ids)
  note df = decode_fold[OF d gpu_success[OF run ne]]
  show "skylineIds r =
           (\<lambda>i. id_of (data ! i)) ` {i. i < length data \<and> unat (fst (kernel_results env data attrs i)) = 0}"
    using df(1) by auto
  show "\<forall>i<length data. id_of (data ! i) \<noteq> ''__proto__'' \<longrightarrow>
           dominanceScores r (id_of (data ! i)) = Some (unat (snd (kernel_results env data attrs i)))"
    using df(2) by auto
  show "\<forall>i<length data. id_of (data ! i) \<noteq> ''__proto__'' \<longrightarrow>
           dominatedBy r (id_of (data ! i)) = Some (unat (fst (kernel_results env data attrs i)))"
    using df(3) by auto
  show "\<forall>k. k \<notin> id_of ` set data \<or> k = ''__proto__'' \<longrightarrow>
           dominanceScores r k = None \<and> dominatedBy r k = None"
    using df(4)[unfolded ids_image] by auto
qed

lemma gpu_single:
  assumes "computeSkylineWebGPU env st t [p] attrs = (Inr r, st', ops)" "attrs \<noteq> []"
  shows "skylineIds r = {id_of p}" "dominanceScores r = assign Map.empty (id_of p) 0"
    "dominatedBy r = assign Map.empty (id_of p) 0"
proof -
  have "unat (fst (kernel_results env [p] attrs 0)) + unat (snd (kernel_results env [p] attrs 0)) \<le> length [p] - 1"
    by (rule kernel_results_unat) simp_all
  then have z: "unat (fst (kernel_results env [p] attrs 0)) = 0" "unat (snd (kernel_results env [p] attrs 0)) = 0"
    by simp_all
  have d: "decode_step [p] (kernel_results env [p] attrs) 0 ({}, Map.empty, Map.empty)
          = ({id_of p}, assign Map.empty (id_of p) 0, assign Map.empty (id_of p) 0)"
    by (simp add: decode_step_eq z)
  from gpu_success[OF assms(1) _ assms(2)]
  have "decode_step [p] (kernel_results env [p] attrs) 0 ({}, Map.empty, Map.empty)
          = (skylineIds r, dominanceScores r, dominatedBy r)" by simp
  then have e: "(skylineIds r, dominanceScores r, dominatedBy r)
          = ({id_of p}, assign Map.empty (id_of p) 0, assign Map.empty (id_of p) 0)"
    unfolding d by (rule sym)
  from e show "skylineIds r = {id_of p}" by (rule Pair_inject)
  from e show "dominanceScores r = assign Map.empty (id_of p) 0" by (elim Pair_inject)
  from e show "dominatedBy r = assign Map.empty (id_of p) 0" by (elim Pair_inject)
qed

section \<open>The sample inputs\<close>

lemma example_f32:
  "f32_of (Some (Fin 90)) = Fin 90" "f32_of (Some (Fin 80)) = Fin 80" "f32_of (Some (Fin 70)) = Fin 70"
  by code_simp+

lemma example_decode:
  "fold (decode_step example_data (kernel_results env example_data example_attrs)) [0..<length example_data]
           ({}, Map.empty, Map.empty) =
     ({''A'', ''B''}, [''A'' \<mapsto> 1, ''B'' \<mapsto> 1, ''C'' \<mapsto> 0], [''A'' \<mapsto> 0, ''B'' \<mapsto> 0, ''C'' \<mapsto> 2])"
proof -
  have l: "length example_data * length example_attrs < 2 ^ 32" "length example_data < 2 ^ 32"
    by (simp_all add: example_data_def example_attrs_def)
  have k0: "kernel_results env example_data example_attrs 0 = (0, 1)"
    by (subst kernel_results_counts[OF l]) (simp_all add: example_data_def example_attrs_def dominates32_def example_f32 upt_rec)
  have k1: "kernel_results env example_data example_attrs (Suc 0) = (0, 1)"
    by (subst kernel_results_counts[OF l]) (simp_all add: example_data_def example_attrs_def dominates32_def example_f32 upt_rec)
  have k2: "kernel_results env example_data example_attrs 2 = (2, 0)"
    by (subst kernel_results_counts[OF l]) (simp_all add: example_data_def example_attrs_def dominates32_def example_f32 upt_rec)
  have n: "[0..<length example_data] = [0, 1, 2]"
    by (simp add: example_data_def upt_rec)
  show ?thesis
    unfolding n by (simp add: decode_step_eq k0 k1 k2) (simp add: example_data_def assign_def insert_commute)
qed

lemma working_env_state:
  "enums working_env"
  "getGPUState working_env initial_state = (Inr \<lparr>device = 0\<rparr>, initial_state\<lparr>gpuStatePromise := Some (Inr \<lparr>device = 0\<rparr>)\<rparr>)"
  "map_readback (mapAsync_ok working_env) = (Inr (), [MapAsync])"
  by (simp_all add: working_env_def getGPUState_def acquire_def initial_state_def map_readback_def Let_def)

lemma example_cpu:
  "computeSkylineCPU t example_data example_attrs =
     \<lparr>skylineIds = {''A'', ''B''}, dominanceScores = [''A'' \<mapsto> 1, ''B'' \<mapsto> 1, ''C'' \<mapsto> 0],
           dominatedBy = [''A'' \<mapsto> 0, ''B'' \<mapsto> 0, ''C'' \<mapsto> 2],
           computationTime = t, method_tag = CPU\<rparr>"
  by (auto simp: computeSkylineCPU_def example_data_def example_attrs_def upt_rec outer_step_eq
      init_counters_eq dby_def dsc_def dominates_def js_gt_def bump_def fun_eq_iff)

lemma example_gpu_full:
  "computeSkylineWebGPU working_env initial_state t example_data example_attrs =
     (Inr (example_result WebGPU t), example_state, [MapAsync, GetMappedRange, Unmap])"
  by (subst gpu_run[OF _ _ working_env_state example_decode])
     (simp_all add: example_data_def example_attrs_def example_result_def example_state_def
        initial_state_def ensureBuffer_def flatten_def)

lemma example_distinct: "distinct (map id_of example_data)"
  by (simp add: example_data_def)

lemma example_faithful: "marshalling_faithful example_data example_attrs"
  by (simp add: marshalling_faithful_def example_data_def example_attrs_def example_f32)

lemma close_f32:
  "f32_of (Some (Fin 16777217)) = Fin 16777216" "f32_of (Some (Fin 16777216)) = Fin 16777216"
  by code_simp+

lemma close_decode:
  "fold (decode_step close_data (kernel_results env close_data close_attrs)) [0..<length close_data]
           ({}, Map.empty, Map.empty) =
     ({''A'', ''B''}, [''A'' \<mapsto> 0, ''B'' \<mapsto> 0], [''A'' \<mapsto> 0, ''B'' \<mapsto> 0])"
proof -
  have l: "length close_data * length close_attrs < 2 ^ 32" "length close_data < 2 ^ 32"
    by (simp_all add: close_data_def close_attrs_def)
  have k0: "kernel_results env close_data close_attrs 0 = (0, 0)"
    by (subst kernel_results_counts[OF l]) (simp_all add: close_data_def close_attrs_def dominates32_def close_f32 upt_rec)
  have k1: "kernel_results env close_data close_attrs (Suc 0) = (0, 0)"
    by (subst kernel_results_counts[OF l]) (simp_all add: close_data_def close_attrs_def dominates32_def close_f32 upt_rec)
  have n: "[0..<length close_data] = [0, 1]"
    by (simp add: close_data_def upt_rec)
  show ?thesis
    unfolding n by (simp add: decode_step_eq k0 k1) (simp add: close_data_def assign_def insert_commute)
qed

lemma close_gpu:
  "fst (computeSkylineWebGPU working_env initial_state t close_data close_attrs) =
     Inr \<lparr>skylineIds = {''A'', ''B''}, dominanceScores = [''A'' \<mapsto> 0, ''B'' \<mapsto> 0],
          dominatedBy = [''A'' \<mapsto> 0, ''B'' \<mapsto> 0], computationTime = t, method_tag = WebGPU\<rparr>"
  by (subst gpu_run[OF _ _ working_env_state close_decode])
     (simp_all add: close_data_def close_attrs_def)

lemma close_cpu:
  "computeSkylineCPU t close_data close_attrs =
     \<lparr>skylineIds = {''A''}, dominanceScores = [''A'' \<mapsto> 1, ''B'' \<mapsto> 0],
      dominatedBy = [''A'' \<mapsto> 0, ''B'' \<mapsto> 1], computationTime = t, method_tag = CPU\<rparr>"
  by (auto simp: computeSkylineCPU_def close_data_def close_attrs_def upt_rec outer_step_eq
      init_counters_eq dby_def dsc_def dominates_def js_gt_def bump_def fun_eq_iff)

lemma retry_env_run:
  "enums retry_env" "getGPUState retry_env initial_state =
     (Inr \<lparr>device = 0\<rparr>, initial_state\<lparr>gpuStatePromise := Some (Inr \<lparr>device = 0\<rparr>)\<rparr>)"
  "\<not> mapAsync_ok retry_env 0" "mapAsync_ok retry_env 1"
  by (simp_all add: retry_env_def working_env_def getGPUState_def acquire_def initial_state_def Let_def)

lemma unmappable_env_run:
  "enums unmappable_env" "getGPUState unmappable_env initial_state =
     (Inr \<lparr>device = 0\<rparr>, initial_state\<lparr>gpuStatePromise := Some (Inr \<lparr>device = 0\<rparr>)\<rparr>)"
  "\<not> mapAsync_ok unmappable_env 0" "\<not> mapAsync_ok unmappable_env 1" "mapAsync_ok unmappable_env 2"
  by (simp_all add: unmappable_env_def working_env_def getGPUState_def acquire_def initial_state_def Let_def)

lemma same_id_cpu:
  "skylineIds (computeSkylineCPU t same_id_data close_attrs) = {''A''}"
  "dominatedBy (computeSkylineCPU t same_id_data close_attrs) ''A'' = Some 1"
  "dominanceScores (computeSkylineCPU t same_id_data close_attrs) ''A'' = Some 1"
  by (auto simp: computeSkylineCPU_def same_id_data_def close_attrs_def upt_rec outer_step_eq
      init_counters_eq dby_def dsc_def dominates_def js_gt_def bump_def)

lemma single_gpu_run:
  "fst (computeSkylineWebGPU working_env initial_state t [p] pace_attr) =
     Inr \<lparr>skylineIds = {id_of p}, dominanceScores = assign Map.empty (id_of p) 0,
          dominatedBy = assign Map.empty (id_of p) 0, computationTime = t, method_tag = WebGPU\<rparr>"
proof -
  have "unat (fst (kernel_results working_env [p] pace_attr 0))
          + unat (snd (kernel_results working_env [p] pace_attr 0)) \<le> length [p] - 1"
    by (rule kernel_results_unat) simp_all
  then have z: "unat (fst (kernel_results working_env [p] pace_attr 0)) = 0"
    "unat (snd (kernel_results working_env [p] pace_attr 0)) = 0"
    by simp_all
  have d: "fold (decode_step [p] (kernel_results working_env [p] pace_attr)) [0..<length [p]]
             ({}, Map.empty, Map.empty)
          = ({id_of p}, assign Map.empty (id_of p) 0, assign Map.empty (id_of p) 0)"
    by (simp add: decode_step_eq z)
  have ne: "pace_attr \<noteq> []" by (simp add: pace_attr_def)
  show ?thesis
    by (subst gpu_run[OF _ ne working_env_state d]) simp_all
qed

lemma low_point_accumulate:
  "accumulate sample_arith low_point pace_attr = (Fin 0, Fin 0, Fin 0)"
  by (simp add: accumulate_def accumulate_step_def sample_arith_def low_point_def pace_attr_def
      lift2_def Math_max_def Let_def)

section \<open>Claims\<close>

subsection \<open>C1: agreement of the two backends\<close>

text \<open>
  C1, as stated, fails: the parallel backend compares the values after their conversion to
  float32 (and after replacing non-finite values by zero), the serial backend compares the
  doubles. Two records with \<open>x = 16777217\<close> and \<open>x = 16777216\<close> are distinct for the serial
  backend (the first dominates the second) and equal for the kernel, since both values
  become \<open>16777216\<close> in the \<open>Float32Array\<close>.
\<close>

theorem backend_agreement_counterexample:
  "fst (computeSkylineWebGPU working_env initial_state (Fin 0) close_data close_attrs) =
     Inr \<lparr>skylineIds = {''A'', ''B''}, dominanceScores = [''A'' \<mapsto> 0, ''B'' \<mapsto> 0],
          dominatedBy = [''A'' \<mapsto> 0, ''B'' \<mapsto> 0], computationTime = Fin 0, method_tag = WebGPU\<rparr>
   \<and> skylineIds (computeSkylineCPU (Fin 0) close_data close_attrs) = {''A''}
   \<and> dominanceScores (computeSkylineCPU (Fin 0) close_data close_attrs) ''A'' = Some 1
   \<and> dominatedBy (computeSkylineCPU (Fin 0) close_data close_attrs) ''B'' = Some 1"
  by (simp add: close_gpu close_cpu)

text \<open>
  C1, amended: for records with unique ids and a non-empty list of active attributes, with
  \<open>N * D\<close> within the 32-bit range of the kernel's indices, and provided the marshalling to
  float32 does not change how any two records compare on any active attribute
  (\<open>marshalling_faithful\<close>; it holds in particular when every active value is a finite
  number that float32 represents exactly), every result the parallel backend returns has
  the same \<open>skylineIds\<close>, \<open>dominanceScores\<close> and \<open>dominatedBy\<close> as the result of the serial
  backend.
\<close>

theorem backend_agreement:
  assumes dist: "distinct (map id_of data)"
    and ne: "attrs \<noteq> []"
    and size: "length data * length attrs < 2 ^ 32"
    and faithful: "marshalling_faithful data attrs"
    and run: "computeSkylineWebGPU env st t' data attrs = (Inr r, st', ops)"
  shows "skylineIds r = skylineIds (computeSkylineCPU t data attrs)
       \<and> dominanceScores r = dominanceScores (computeSkylineCPU t data attrs)
       \<and> dominatedBy r = dominatedBy (computeSkylineCPU t data attrs)"
proof (cases "data = []")
  case True
  with gpu_empty_fields[OF run] show ?thesis by (simp add: computeSkylineCPU_def)
next
  case False
  have n: "length data < 2 ^ 32"
  proof -
    from ne have "length data \<le> length data * length attrs" by (cases attrs) auto
    then show ?thesis using size by (rule le_less_trans)
  qed
  note c = cpu_result[OF dist, of t attrs]
  note g = gpu_result[OF dist run False ne]
  have kr: "\<And>i. i < length data \<Longrightarrow>
      unat (fst (kernel_results env data attrs i)) = dby data attrs i
    \<and> unat (snd (kernel_results env data attrs i)) = dsc data attrs i"
  proof -
    fix i assume i: "i < length data"
    from cpu_bound[OF i, of attrs] n have "dby data attrs i < 2 ^ 32" "dsc data attrs i < 2 ^ 32"
      by simp_all
    then have "unat (of_nat (dby data attrs i) :: u32) = dby data attrs i"
      "unat (of_nat (dsc data attrs i) :: u32) = dsc data attrs i"
      by (simp_all only: u32_unat_of_nat)
    then show "unat (fst (kernel_results env data attrs i)) = dby data attrs i
    \<and> unat (snd (kernel_results env data attrs i)) = dsc data attrs i"
      by (simp only: kernel_results_faithful[OF size n i faithful] fst_conv snd_conv)
  qed
  have "skylineIds r = skylineIds (computeSkylineCPU t data attrs)"
    unfolding g(1) c(1) using kr by auto
  moreover have "dominanceScores r = dominanceScores (computeSkylineCPU t data attrs)"
    using g(2,4) c(2,4) kr by (intro table_eq[where c = "dsc data attrs" and data = data]) simp_all
  moreover have "dominatedBy r = dominatedBy (computeSkylineCPU t data attrs)"
    using g(3,4) c(3,4) kr by (intro table_eq[where c = "dby data attrs" and data = data]) simp_all
  ultimately show ?thesis by simp
qed

text \<open>The amended C1 on the worked example, run on a platform where every step succeeds.\<close>

theorem backend_agreement_witness:
  "distinct (map id_of example_data) \<and> example_attrs \<noteq> []
   \<and> length example_data * length example_attrs < 2 ^ 32
   \<and> marshalling_faithful example_data example_attrs
   \<and> computeSkylineWebGPU working_env initial_state (Fin 2) example_data example_attrs
       = (Inr (example_result WebGPU (Fin 2)), example_state, [MapAsync, GetMappedRange, Unmap])
   \<and> skylineIds (example_result WebGPU (Fin 2))
       = skylineIds (computeSkylineCPU (Fin 1) example_data example_attrs)
   \<and> dominanceScores (example_result WebGPU (Fin 2))
       = dominanceScores (computeSkylineCPU (Fin 1) example_data example_attrs)
   \<and> dominatedBy (example_result WebGPU (Fin 2))
       = dominatedBy (computeSkylineCPU (Fin 1) example_data example_attrs)"
proof -
  have ne: "example_attrs \<noteq> []" by (simp add: example_attrs_def)
  have size: "length example_data * length example_attrs < 2 ^ 32"
    by (simp add: example_data_def example_attrs_def)
  from backend_agreement[OF example_distinct ne size example_faithful example_gpu_full, of "Fin 2" "Fin 1"]
    example_distinct ne size example_faithful example_gpu_full[of "Fin 2"]
  show ?thesis by simp
qed

subsection \<open>C2: zero dominated-by count and skyline membership\<close>

text \<open>
  C2, as stated, fails. The tables are keyed by id: of two records that share the id \<open>A\<close>,
  the better one puts \<open>A\<close> into \<open>skylineIds\<close> while the other one leaves the count 1 under
  \<open>A\<close>. And a plain object takes no number under the key \<open>__proto__\<close>: a single record
  with that id is in \<open>skylineIds\<close> and has no count at all, zero or other.
\<close>

theorem dominated_by_zero_counterexample:
  "skylineIds (computeSkylineCPU (Fin 0) same_id_data close_attrs) = {''A''}
   \<and> dominatedBy (computeSkylineCPU (Fin 0) same_id_data close_attrs) ''A'' = Some 1
   \<and> skylineIds (computeSkylineCPU (Fin 0) [proto_point] pace_attr) = {''__proto__''}
   \<and> dominatedBy (computeSkylineCPU (Fin 0) [proto_point] pace_attr) ''__proto__'' = None"
  by (simp add: same_id_cpu cpu_single proto_point_def assign_def)

text \<open>
  C2, amended: for a record list with unique ids and any active attribute list, in the
  result of the serial backend and in every result the parallel backend returns, for every
  id other than \<open>__proto__\<close> the \<open>dominatedBy\<close> count stored under the id is zero if and only
  if the id is in \<open>skylineIds\<close>.
\<close>

theorem dominated_by_zero_iff_in_skyline:
  assumes "distinct (map id_of data)" "k \<noteq> ''__proto__''"
  shows "(dominatedBy (computeSkylineCPU t data attrs) k = Some 0
            \<longleftrightarrow> k \<in> skylineIds (computeSkylineCPU t data attrs))
       \<and> (computeSkylineWebGPU env st t' data attrs = (Inr r, st', ops)
            \<longrightarrow> (dominatedBy r k = Some 0 \<longleftrightarrow> k \<in> skylineIds r))"
proof
  note c = cpu_result[OF assms(1), of t attrs]
  from c(4) have c4: "\<forall>k. k \<notin> id_of ` set data \<or> k = ''__proto__'' \<longrightarrow>
      dominatedBy (computeSkylineCPU t data attrs) k = None"
    by simp
  show "dominatedBy (computeSkylineCPU t data attrs) k = Some 0
            \<longleftrightarrow> k \<in> skylineIds (computeSkylineCPU t data attrs)"
    by (rule table_zero_iff[OF assms(1) c(1) c(3) c4 assms(2)])
next
  show "computeSkylineWebGPU env st t' data attrs = (Inr r, st', ops)
            \<longrightarrow> (dominatedBy r k = Some 0 \<longleftrightarrow> k \<in> skylineIds r)"
  proof
    assume run: "computeSkylineWebGPU env st t' data attrs = (Inr r, st', ops)"
    show "dominatedBy r k = Some 0 \<longleftrightarrow> k \<in> skylineIds r"
    proof (cases "data = [] \<or> attrs = []")
      case True
      from gpu_empty_fields[OF run True] show ?thesis by simp
    next
      case False
      then have ne: "data \<noteq> []" "attrs \<noteq> []" by simp_all
      note g = gpu_result[OF assms(1) run ne]
      from g(4) have g4: "\<forall>k. k \<notin> id_of ` set data \<or> k = ''__proto__'' \<longrightarrow> dominatedBy r k = None"
        by simp
      show ?thesis
        by (rule table_zero_iff[OF assms(1) g(1) g(3) g4 assms(2)])
    qed
  qed
qed

text \<open>
  The amended C2 on the worked example, for the ids \<open>A\<close> (in the skyline) and \<open>C\<close>
  (dominated twice).
\<close>

theorem dominated_by_zero_iff_in_skyline_witness:
  "distinct (map id_of example_data) \<and> ''A'' \<noteq> ''__proto__'' \<and> ''C'' \<noteq> ''__proto__''
   \<and> dominatedBy (computeSkylineCPU (Fin 1) example_data example_attrs) ''A'' = Some 0
   \<and> ''A'' \<in> skylineIds (computeSkylineCPU (Fin 1) example_data example_attrs)
   \<and> computeSkylineWebGPU working_env initial_state (Fin 2) example_data example_attrs
       = (Inr (example_result WebGPU (Fin 2)), example_state, [MapAsync, GetMappedRange, Unmap])
   \<and> dominatedBy (example_result WebGPU (Fin 2)) ''C'' \<noteq> Some 0
   \<and> ''C'' \<notin> skylineIds (example_result WebGPU (Fin 2))"
proof -
  have a: "dominatedBy (computeSkylineCPU (Fin 1) example_data example_attrs) ''A'' = Some 0"
    by (simp add: example_cpu)
  have c: "dominatedBy (example_result WebGPU (Fin 2)) ''C'' \<noteq> Some 0"
    by (simp add: example_result_def)
  have ka: "''A'' \<noteq> ''__proto__''" and kc: "''C'' \<noteq> ''__proto__''" by simp_all
  from dominated_by_zero_iff_in_skyline[OF example_distinct ka,
      of "Fin 1" example_attrs working_env initial_state "Fin 2"]
    dominated_by_zero_iff_in_skyline[OF example_distinct kc,
      of "Fin 1" example_attrs working_env initial_state "Fin 2"
         "example_result WebGPU (Fin 2)" example_state "[MapAsync, GetMappedRange, Unmap]"]
    a c example_distinct example_gpu_full[of "Fin 2"]
  show ?thesis by simp
qed

subsection \<open>C3: the score bound\<close>

text \<open>
  C3, as stated, fails. For an empty active attribute list the parallel backend returns at
  once, with empty tables: the records of the worked example have no dominance score and
  no dominated-by count, so there is no sum within \<open>N - 1\<close>. And under the key \<open>__proto__\<close>
  neither backend stores a count.
\<close>

theorem score_bound_counterexample:
  "computeSkylineWebGPU working_env initial_state (Fin 0) example_data []
     = (Inr \<lparr>skylineIds = {}, dominanceScores = Map.empty, dominatedBy = Map.empty,
             computationTime = Fin 0, method_tag = WebGPU\<rparr>, initial_state, [])
   \<and> dominanceScores (computeSkylineCPU (Fin 0) [proto_point] pace_attr) ''__proto__'' = None
   \<and> dominatedBy (computeSkylineCPU (Fin 0) [proto_point] pace_attr) ''__proto__'' = None"
  by (simp add: gpu_empty cpu_single proto_point_def assign_def)

text \<open>
  C3, amended: for a list of \<open>N\<close> records with unique ids and every record \<open>p\<close> whose id is
  not \<open>__proto__\<close>: the result of the serial backend has, for every active attribute list,
  a dominance score and a dominated-by count of \<open>p\<close> with
  \<open>dominanceScore[p] + dominatedBy[p] \<le> N - 1\<close>; so has every result the parallel backend
  returns for a non-empty active attribute list (\<open>N\<close> below \<open>2^32\<close>, as the length of every
  JavaScript array is). For an empty active attribute list the parallel backend returns
  empty tables.
\<close>

theorem score_bound:
  assumes "distinct (map id_of data)" "i < length data" "id_of (data ! i) \<noteq> ''__proto__''"
  shows "(\<exists>s b. dominanceScores (computeSkylineCPU t data attrs) (id_of (data ! i)) = Some s
            \<and> dominatedBy (computeSkylineCPU t data attrs) (id_of (data ! i)) = Some b
            \<and> s + b \<le> length data - 1)
       \<and> (computeSkylineWebGPU env st t' data attrs = (Inr r, st', ops)
            \<longrightarrow> length data < 2 ^ 32
            \<longrightarrow> (attrs \<noteq> [] \<longrightarrow>
                   (\<exists>s b. dominanceScores r (id_of (data ! i)) = Some s
                        \<and> dominatedBy r (id_of (data ! i)) = Some b
                        \<and> s + b \<le> length data - 1))
              \<and> (attrs = [] \<longrightarrow> dominanceScores r = Map.empty \<and> dominatedBy r = Map.empty))"
proof (intro conjI impI)
  note c = cpu_result[OF assms(1), of t attrs]
  from c(2,3) assms(2,3) cpu_bound[OF assms(2), of attrs]
  show "\<exists>s b. dominanceScores (computeSkylineCPU t data attrs) (id_of (data ! i)) = Some s
            \<and> dominatedBy (computeSkylineCPU t data attrs) (id_of (data ! i)) = Some b
            \<and> s + b \<le> length data - 1"
    by simp
next
  assume run: "computeSkylineWebGPU env st t' data attrs = (Inr r, st', ops)"
    and n: "length data < 2 ^ 32" and ne: "attrs \<noteq> []"
  from assms(2) have ne': "data \<noteq> []" by auto
  note g = gpu_result[OF assms(1) run ne' ne]
  from g(2,3) assms(2,3) kernel_results_unat[OF n assms(2), of env attrs]
  show "\<exists>s b. dominanceScores r (id_of (data ! i)) = Some s
                  \<and> dominatedBy r (id_of (data ! i)) = Some b
                  \<and> s + b \<le> length data - 1"
    by (simp add: add.commute)
next
  assume run: "computeSkylineWebGPU env st t' data attrs = (Inr r, st', ops)" and e: "attrs = []"
  then show "dominanceScores r = Map.empty" "dominatedBy r = Map.empty"
    using gpu_empty_fields[OF run] by simp_all
qed

text \<open>
  The amended C3 on the worked example, for record \<open>C\<close> (index 2): score 0, dominated by 2,
  \<open>N - 1 = 2\<close>.
\<close>

theorem score_bound_witness:
  "distinct (map id_of example_data) \<and> 2 < length example_data
   \<and> id_of (example_data ! 2) \<noteq> ''__proto__''
   \<and> (\<exists>s b. dominanceScores (computeSkylineCPU (Fin 1) example_data example_attrs)
               (id_of (example_data ! 2)) = Some s
           \<and> dominatedBy (computeSkylineCPU (Fin 1) example_data example_attrs)
               (id_of (example_data ! 2)) = Some b
           \<and> s + b \<le> length example_data - 1)
   \<and> computeSkylineWebGPU working_env initial_state (Fin 2) example_data example_attrs
       = (Inr (example_result WebGPU (Fin 2)), example_state, [MapAsync, GetMappedRange, Unmap])
   \<and> example_attrs \<noteq> [] \<and> length example_data < 2 ^ 32
   \<and> (\<exists>s b. dominanceScores (example_result WebGPU (Fin 2)) (id_of (example_data ! 2)) = Some s
           \<and> dominatedBy (example_result WebGPU (Fin 2)) (id_of (example_data ! 2)) = Some b
           \<and> s + b \<le> length example_data - 1)"
proof -
  have i: "2 < length example_data" by (simp add: example_data_def)
  have k: "id_of (example_data ! 2) \<noteq> ''__proto__''" by (simp add: example_data_def)
  have ne: "example_attrs \<noteq> []" by (simp add: example_attrs_def)
  have n: "length example_data < 2 ^ 32" by (simp add: example_data_def)
  from score_bound[OF example_distinct i k, of "Fin 1" example_attrs working_env initial_state "Fin 2"
      "example_result WebGPU (Fin 2)" example_state "[MapAsync, GetMappedRange, Unmap]"]
    example_distinct i k ne n example_gpu_full[of "Fin 2"]
  show ?thesis by blast
qed

subsection \<open>C4: dominance is irreflexive and antisymmetric\<close>

text \<open>
  C4: for every record \<open>a\<close> and active attribute list, \<open>dominates(a, a)\<close> is false; for every
  pair \<open>(a, b)\<close>, \<open>dominates(a, b)\<close> and \<open>dominates(b, a)\<close> are not both true; and two records
  whose values (as \<open>dominates\<close> reads them) are equal on all active attributes do not
  dominate each other.
\<close>

theorem dominance_irreflexive_antisymmetric:
  "\<not> dominates a a attrs
   \<and> \<not> (dominates a b attrs \<and> dominates b a attrs)
   \<and> ((\<forall>attr\<in>set attrs. or_zero (props a (key attr)) = or_zero (props b (key attr)))
        \<longrightarrow> \<not> dominates a b attrs \<and> \<not> dominates b a attrs)"
proof (intro conjI impI)
  show "\<not> dominates a a attrs" by (rule dominates_irrefl)
  show "\<not> (dominates a b attrs \<and> dominates b a attrs)" using dominates_asym by blast
next
  assume e: "\<forall>attr\<in>set attrs. or_zero (props a (key attr)) = or_zero (props b (key attr))"
  then show "\<not> dominates a b attrs" by (rule dominates_equal)
  from e have "\<forall>attr\<in>set attrs. or_zero (props b (key attr)) = or_zero (props a (key attr))"
    by simp
  then show "\<not> dominates b a attrs" by (rule dominates_equal)
qed

text \<open>C4 on record \<open>A\<close> of the worked example and a second record with the same values.\<close>

theorem dominance_irreflexive_antisymmetric_witness:
  "or_zero (props (example_data ! 0) ''pace'') = or_zero (props twin_A ''pace'')
   \<and> or_zero (props (example_data ! 0) ''shoot'') = or_zero (props twin_A ''shoot'')
   \<and> \<not> dominates (example_data ! 0) twin_A example_attrs
   \<and> \<not> dominates twin_A (example_data ! 0) example_attrs
   \<and> \<not> dominates twin_A twin_A example_attrs"
proof -
  have p: "or_zero (props (example_data ! 0) ''pace'') = or_zero (props twin_A ''pace'')"
    and s: "or_zero (props (example_data ! 0) ''shoot'') = or_zero (props twin_A ''shoot'')"
    by (simp_all add: example_data_def twin_A_def)
  then have e: "\<forall>attr\<in>set example_attrs.
      or_zero (props (example_data ! 0) (key attr)) = or_zero (props twin_A (key attr))"
    by (simp add: example_attrs_def)
  from dominance_irreflexive_antisymmetric[of "example_data ! 0" example_attrs twin_A]
    dominance_irreflexive_antisymmetric[of twin_A example_attrs twin_A] e p s
  show ?thesis by blast
qed

subsection \<open>C5: caching of the device handle\<close>

text \<open>
  C5, as stated, fails: \<open>getGPUState\<close> stores the promise of the acquisition before it
  settles and never clears it, so a rejection is cached like a device. After a call on a
  platform whose \<open>requestAdapter\<close> gave no adapter, a call on a platform where acquisition
  would succeed still fails with the cached error.
\<close>

theorem failed_acquisition_counterexample:
  "fst (computeSkylineWebGPU no_adapter_env initial_state (Fin 0) example_data example_attrs)
     = Inl AdapterRequestFailed
   \<and> acquire working_env = Inr \<lparr>device = 0\<rparr>
   \<and> fst (computeSkylineWebGPU working_env
            (fst (snd (computeSkylineWebGPU no_adapter_env initial_state (Fin 0)
                         example_data example_attrs)))
            (Fin 0) example_data example_attrs)
     = Inl AdapterRequestFailed"
  by (simp add: computeSkylineWebGPU_def getGPUState_def acquire_def no_adapter_env_def
      working_env_def initial_state_def example_data_def example_attrs_def Let_def)

text \<open>
  C5, amended: the outcome of the acquisition that \<open>getGPUState\<close> starts is cached for the
  life of the process whether it is a device or a failure: once a call of \<open>getGPUState\<close>
  has returned outcome \<open>p\<close>, every later call returns the same \<open>p\<close> and leaves the module
  state as it is, whatever the platform would answer then; and when \<open>p\<close> is a failure,
  every later call of the parallel backend on a non-empty input (with the WebGPU enums
  present) fails with that same error without issuing any device operation. Only a call
  that fails before the acquisition starts, because the WebGPU enums are missing, caches
  nothing: it leaves the module state unchanged.
\<close>

theorem acquisition_outcome_cached:
  assumes "getGPUState env st = (p, st1)"
  shows "getGPUState env' st1 = (p, st1)
       \<and> (\<forall>e. p = Inl e \<longrightarrow> data \<noteq> [] \<longrightarrow> attrs \<noteq> [] \<longrightarrow> enums env'
              \<longrightarrow> computeSkylineWebGPU env' st1 t data attrs = (Inl e, st1, []))
       \<and> (data \<noteq> [] \<longrightarrow> attrs \<noteq> [] \<longrightarrow> \<not> enums env'
              \<longrightarrow> computeSkylineWebGPU env' st t data attrs = (Inl EnumsUnavailable, st, []))"
proof -
  from assms have c: "gpuStatePromise st1 = Some p"
    by (auto simp: getGPUState_def Let_def split: option.splits)
  then have g: "getGPUState env' st1 = (p, st1)" by (simp add: getGPUState_def)
  then show ?thesis by (auto simp: computeSkylineWebGPU_def)
qed

text \<open>The amended C5 at the failing acquisition of the counterexample.\<close>

theorem acquisition_outcome_cached_witness:
  "getGPUState no_adapter_env initial_state
     = (Inl AdapterRequestFailed, initial_state\<lparr>gpuStatePromise := Some (Inl AdapterRequestFailed)\<rparr>)
   \<and> getGPUState working_env (initial_state\<lparr>gpuStatePromise := Some (Inl AdapterRequestFailed)\<rparr>)
     = (Inl AdapterRequestFailed, initial_state\<lparr>gpuStatePromise := Some (Inl AdapterRequestFailed)\<rparr>)
   \<and> example_data \<noteq> [] \<and> example_attrs \<noteq> [] \<and> enums working_env
   \<and> computeSkylineWebGPU working_env (initial_state\<lparr>gpuStatePromise := Some (Inl AdapterRequestFailed)\<rparr>)
        (Fin 0) example_data example_attrs
     = (Inl AdapterRequestFailed, initial_state\<lparr>gpuStatePromise := Some (Inl AdapterRequestFailed)\<rparr>, [])"
proof -
  have g: "getGPUState no_adapter_env initial_state
     = (Inl AdapterRequestFailed, initial_state\<lparr>gpuStatePromise := Some (Inl AdapterRequestFailed)\<rparr>)"
    by (simp add: getGPUState_def acquire_def no_adapter_env_def working_env_def
        initial_state_def Let_def)
  have h: "example_data \<noteq> []" "example_attrs \<noteq> []" "enums working_env"
    by (simp_all add: example_data_def example_attrs_def working_env_def)
  from acquisition_outcome_cached[OF g, of working_env example_data example_attrs "Fin 0"] g h
  show ?thesis by simp
qed

subsection \<open>C6: one retry of the readback mapping\<close>

text \<open>
  C6: when a call reaches the readback and the first \<open>mapAsync\<close> of the staging buffer
  fails, \<open>computeSkylineWebGPU\<close> unmaps and maps once more. If that second \<open>mapAsync\<close> succeeds
  the call returns the result it would have returned had the first one succeeded; if it
  fails too, the call throws that second error: it
  returns no result and issues no third \<open>mapAsync\<close>, whatever a further attempt would have
  given. The failure is not kept: the device handle stays cached, and a later call whose
  mapping succeeds returns a result.
\<close>

theorem readback_mapping_retried_once:
  assumes "data \<noteq> []" "attrs \<noteq> []" "enums env" "getGPUState env st = (Inr g, st1)"
    and "\<not> mapAsync_ok env 0"
  shows "(mapAsync_ok env 1 \<longrightarrow>
            (\<exists>r st'. computeSkylineWebGPU env st t data attrs
                       = (Inr r, st', [MapAsync, Unmap, MapAsync, GetMappedRange, Unmap])
                  \<and> fst (computeSkylineWebGPU (env\<lparr>mapAsync_ok := (\<lambda>n. True)\<rparr>) st t data attrs)
                       = Inr r))
       \<and> (\<not> mapAsync_ok env 1 \<longrightarrow>
            (\<exists>st'. computeSkylineWebGPU env st t data attrs
                       = (Inl (MapAsyncRejected 1), st', [MapAsync, Unmap, MapAsync])
                  \<and> gpuStatePromise st' = Some (Inr g)
                  \<and> (\<forall>env2 t2 data2 attrs2. enums env2 \<longrightarrow> mapAsync_ok env2 0 \<longrightarrow>
                        (\<exists>r. fst (computeSkylineWebGPU env2 st' t2 data2 attrs2) = Inr r))))"
proof (intro conjI impI)
  assume "mapAsync_ok env 1"
  moreover have aq: "acquire (env\<lparr>mapAsync_ok := (\<lambda>n. True)\<rparr>) = acquire env"
    by (simp add: acquire_def)
  have "getGPUState (env\<lparr>mapAsync_ok := (\<lambda>n. True)\<rparr>) st = getGPUState env st"
    unfolding getGPUState_def aq ..
  then have "getGPUState (env\<lparr>mapAsync_ok := (\<lambda>n. True)\<rparr>) st = (Inr g, st1)"
    using assms(4) by simp
  moreover have "kernel_results (env\<lparr>mapAsync_ok := (\<lambda>n. True)\<rparr>) data attrs
                   = kernel_results env data attrs"
    by (simp add: kernel_results_def)
  ultimately show "\<exists>r st'. computeSkylineWebGPU env st t data attrs
                       = (Inr r, st', [MapAsync, Unmap, MapAsync, GetMappedRange, Unmap])
                  \<and> fst (computeSkylineWebGPU (env\<lparr>mapAsync_ok := (\<lambda>n. True)\<rparr>) st t data attrs)
                       = Inr r"
    using assms
    by (simp add: computeSkylineWebGPU_def map_readback_def Let_def split: prod.splits)
next
  assume no: "\<not> mapAsync_ok env 1"
  from assms(4) have c: "gpuStatePromise st1 = Some (Inr g)"
    by (auto simp: getGPUState_def Let_def split: option.splits)
  define st' where "st' = st1\<lparr>dataBuf := ensureBuffer (dataBuf st1) (4 * length (flatten data attrs)),
                        resultBuf := ensureBuffer (resultBuf st1) (length data * 8),
                        uniformBuf := ensureBuffer (uniformBuf st1) 8,
                        readbackBuf := ensureBuffer (readbackBuf st1) (length data * 8)\<rparr>"
  have run: "computeSkylineWebGPU env st t data attrs
               = (Inl (MapAsyncRejected 1), st', [MapAsync, Unmap, MapAsync])"
    using assms no by (simp add: computeSkylineWebGPU_def map_readback_def Let_def st'_def)
  have c': "gpuStatePromise st' = Some (Inr g)" using c by (simp add: st'_def)
  have "\<forall>env2 t2 data2 attrs2. enums env2 \<longrightarrow> mapAsync_ok env2 0 \<longrightarrow>
            (\<exists>r. fst (computeSkylineWebGPU env2 st' t2 data2 attrs2) = Inr r)"
    using gpu_returns[OF _ c'] by blast
  with run c' show "\<exists>st'. computeSkylineWebGPU env st t data attrs
                       = (Inl (MapAsyncRejected 1), st', [MapAsync, Unmap, MapAsync])
                  \<and> gpuStatePromise st' = Some (Inr g)
                  \<and> (\<forall>env2 t2 data2 attrs2. enums env2 \<longrightarrow> mapAsync_ok env2 0 \<longrightarrow>
                        (\<exists>r. fst (computeSkylineWebGPU env2 st' t2 data2 attrs2) = Inr r))"
    by blast
qed

text \<open>
  C6 on the worked example: a platform whose second \<open>mapAsync\<close> succeeds, and one whose
  first two fail and whose third would succeed.
\<close>

theorem readback_mapping_retried_once_witness:
  "example_data \<noteq> [] \<and> example_attrs \<noteq> [] \<and> enums retry_env \<and> enums unmappable_env
   \<and> \<not> mapAsync_ok retry_env 0 \<and> mapAsync_ok retry_env 1
   \<and> \<not> mapAsync_ok unmappable_env 0 \<and> \<not> mapAsync_ok unmappable_env 1 \<and> mapAsync_ok unmappable_env 2
   \<and> (\<exists>r st'. computeSkylineWebGPU retry_env initial_state (Fin 0) example_data example_attrs
                 = (Inr r, st', [MapAsync, Unmap, MapAsync, GetMappedRange, Unmap]))
   \<and> (\<exists>st'. computeSkylineWebGPU unmappable_env initial_state (Fin 0) example_data example_attrs
                 = (Inl (MapAsyncRejected 1), st', [MapAsync, Unmap, MapAsync]))"
proof -
  have h: "example_data \<noteq> []" "example_attrs \<noteq> []"
    by (simp_all add: example_data_def example_attrs_def)
  from readback_mapping_retried_once[OF h retry_env_run(1,2,3), of "Fin 0"]
    readback_mapping_retried_once[OF h unmappable_env_run(1,2,3), of "Fin 0"]
    h retry_env_run unmappable_env_run
  show ?thesis by blast
qed

subsection \<open>C7: the worked example\<close>

text \<open>
  C7: on the records \<open>A{pace:90, shoot:80}\<close>, \<open>B{pace:80, shoot:90}\<close>, \<open>C{pace:70, shoot:70}\<close>
  with active attributes \<open>[pace, shoot]\<close>, the serial backend returns
  \<open>skylineIds = {A, B}\<close>, \<open>dominanceScores = {A:1, B:1, C:0}\<close> and
  \<open>dominatedBy = {A:0, B:0, C:2}\<close>, and so does every result the parallel backend returns.
\<close>

theorem worked_example:
  "skylineIds (computeSkylineCPU t example_data example_attrs) = {''A'', ''B''}
   \<and> dominanceScores (computeSkylineCPU t example_data example_attrs)
        = [''A'' \<mapsto> 1, ''B'' \<mapsto> 1, ''C'' \<mapsto> 0]
   \<and> dominatedBy (computeSkylineCPU t example_data example_attrs)
        = [''A'' \<mapsto> 0, ''B'' \<mapsto> 0, ''C'' \<mapsto> 2]
   \<and> (computeSkylineWebGPU env st t' example_data example_attrs = (Inr r, st', ops)
        \<longrightarrow> skylineIds r = {''A'', ''B''}
          \<and> dominanceScores r = [''A'' \<mapsto> 1, ''B'' \<mapsto> 1, ''C'' \<mapsto> 0]
          \<and> dominatedBy r = [''A'' \<mapsto> 0, ''B'' \<mapsto> 0, ''C'' \<mapsto> 2])"
proof (intro conjI impI)
  show "skylineIds (computeSkylineCPU t example_data example_attrs) = {''A'', ''B''}"
    by (simp add: example_cpu)
  show "dominanceScores (computeSkylineCPU t example_data example_attrs)
        = [''A'' \<mapsto> 1, ''B'' \<mapsto> 1, ''C'' \<mapsto> 0]"
    by (simp add: example_cpu)
  show "dominatedBy (computeSkylineCPU t example_data example_attrs)
        = [''A'' \<mapsto> 0, ''B'' \<mapsto> 0, ''C'' \<mapsto> 2]"
    by (simp add: example_cpu)
next
  assume run: "computeSkylineWebGPU env st t' example_data example_attrs = (Inr r, st', ops)"
  have ne: "example_data \<noteq> []" "example_attrs \<noteq> []"
    by (simp_all add: example_data_def example_attrs_def)
  have e: "(skylineIds r, dominanceScores r, dominatedBy r) =
     ({''A'', ''B''}, [''A'' \<mapsto> 1, ''B'' \<mapsto> 1, ''C'' \<mapsto> 0], [''A'' \<mapsto> 0, ''B'' \<mapsto> 0, ''C'' \<mapsto> 2])"
    using gpu_success[OF run ne] unfolding example_decode by (rule sym)
  from e show "skylineIds r = {''A'', ''B''}" by (rule Pair_inject)
  from e show "dominanceScores r = [''A'' \<mapsto> 1, ''B'' \<mapsto> 1, ''C'' \<mapsto> 0]" by (elim Pair_inject)
  from e show "dominatedBy r = [''A'' \<mapsto> 0, ''B'' \<mapsto> 0, ''C'' \<mapsto> 2]" by (elim Pair_inject)
qed

text \<open>C7 for a run of the parallel backend on a platform where every step succeeds.\<close>

theorem worked_example_witness:
  "computeSkylineWebGPU working_env initial_state (Fin 2) example_data example_attrs
     = (Inr (example_result WebGPU (Fin 2)), example_state, [MapAsync, GetMappedRange, Unmap])
   \<and> skylineIds (example_result WebGPU (Fin 2)) = {''A'', ''B''}
   \<and> dominanceScores (example_result WebGPU (Fin 2)) = [''A'' \<mapsto> 1, ''B'' \<mapsto> 1, ''C'' \<mapsto> 0]
   \<and> dominatedBy (example_result WebGPU (Fin 2)) = [''A'' \<mapsto> 0, ''B'' \<mapsto> 0, ''C'' \<mapsto> 2]"
  using worked_example[of "Fin 1" working_env initial_state "Fin 2" "example_result WebGPU (Fin 2)"
      example_state "[MapAsync, GetMappedRange, Unmap]"] example_gpu_full[of "Fin 2"]
  by blast

subsection \<open>C8: boundary cases\<close>

text \<open>
  C8 at a single record whose id is \<open>__proto__\<close>, with one active attribute: both backends
  return the record as the sole skyline member, but with empty tables, where the claim has
  dominance score 0 and dominated-by count 0. The initialising \<open>forEach\<close> of the serial
  backend and the decoding loop of the parallel backend both store the zero, and the plain
  object drops it; the \<open>Set\<close> of skyline ids takes the same key.
\<close>

theorem single_record_proto_id:
  "computeSkylineCPU (Fin 0) [proto_point] pace_attr
     = \<lparr>skylineIds = {''__proto__''}, dominanceScores = Map.empty, dominatedBy = Map.empty,
        computationTime = Fin 0, method_tag = CPU\<rparr>
   \<and> fst (computeSkylineWebGPU working_env initial_state (Fin 0) [proto_point] pace_attr)
     = Inr \<lparr>skylineIds = {''__proto__''}, dominanceScores = Map.empty, dominatedBy = Map.empty,
            computationTime = Fin 0, method_tag = WebGPU\<rparr>"
  by (simp add: cpu_single single_gpu_run proto_point_def assign_def)

subsection \<open>C9: the low-magnitude fallback colour\<close>

text \<open>
  C9: for every record and non-empty active attribute list whose accumulated \<open>totalNorm\<close>
  is below \<open>0.01\<close>, \<open>computeColorMapND\<close> returns the fixed dark neutral colour
  \<open>d3.hcl(0, 0, 30)\<close>, whatever the accumulated vector \<open>(x, y)\<close> is.
\<close>

theorem low_magnitude_fallback:
  assumes "attrs \<noteq> []" "accumulate m point attrs = (x, y, totalNorm)" "js_lt totalNorm lit_0_01"
  shows "computeColorMapND m point attrs = hcl_toString m (Fin 0) (Fin 0) (Fin 30)"
  using assms by (simp add: computeColorMapND_def)

text \<open>C9 for a record whose only active value equals the attribute's declared minimum.\<close>

theorem low_magnitude_fallback_witness:
  "pace_attr \<noteq> [] \<and> accumulate sample_arith low_point pace_attr = (Fin 0, Fin 0, Fin 0)
   \<and> js_lt (Fin 0) lit_0_01
   \<and> computeColorMapND sample_arith low_point pace_attr = ''rgb(71, 71, 71)''"
proof -
  have ne: "pace_attr \<noteq> []" by (simp add: pace_attr_def)
  have lt: "js_lt (Fin 0) lit_0_01" by (simp add: lit_0_01_def)
  have s: "hcl_toString sample_arith (Fin 0) (Fin 0) (Fin 30) = ''rgb(71, 71, 71)''"
    by (simp add: hcl_toString_def sample_arith_def)
  from low_magnitude_fallback[OF ne low_point_accumulate lt] ne low_point_accumulate lt s
  show ?thesis by simp
qed

subsection \<open>C10: the colour for an empty attribute list\<close>

text \<open>
  C10: for every record, \<open>computeColorMapND\<close> called with an empty active attribute list
  returns the constant \<open>#475569\<close>, whatever the arithmetic of the platform and the colour
  conversion are (none of them is used); the constant differs from the low-magnitude
  fallback, which is the text \<open>rgb(...)\<close> of a d3 colour.
\<close>

theorem empty_attributes_colour:
  "computeColorMapND m point [] = ''#475569''
   \<and> ''#475569'' \<noteq> hcl_toString m' (Fin 0) (Fin 0) (Fin 30)"
  by (simp add: computeColorMapND_def hcl_toString_def split: prod.splits)

text \<open>C10 for the record \<open>Z\<close> and the sample arithmetic.\<close>

theorem empty_attributes_colour_witness:
  "computeColorMapND sample_arith low_point [] = ''#475569''
   \<and> ''#475569'' \<noteq> hcl_toString sample_arith (Fin 0) (Fin 0) (Fin 30)"
  by (rule empty_attributes_colour)

end
